theory Spec2Isabelle
  imports Main "HOL-Library.Char_ord" "HOL-Library.List_Lexorder" "HOL-Library.Multiset"
begin

section \<open>Go standard library functions used by the generator\<close>

text \<open>
  Go strings are byte sequences; a \<^typ>\<open>string\<close> (a list of 8-bit characters) holds
  the bytes. The functions of \<^verbatim>\<open>strings\<close> and \<^verbatim>\<open>path/filepath\<close> below are
  the Unix versions (separator \<^verbatim>\<open>/\<close>, no volume names).
\<close>

subsection \<open>Package strings\<close>

definition HasPrefix :: "string \<Rightarrow> string \<Rightarrow> bool" where
  "HasPrefix s p = (take (length p) s = p)"

definition HasSuffix :: "string \<Rightarrow> string \<Rightarrow> bool" where
  "HasSuffix s x = (length x \<le> length s \<and> drop (length s - length x) s = x)"

definition TrimSuffix :: "string \<Rightarrow> string \<Rightarrow> string" where
  "TrimSuffix s x = (if HasSuffix s x then take (length s - length x) s else s)"

definition TrimPrefix :: "string \<Rightarrow> string \<Rightarrow> string" where
  "TrimPrefix s p = (if HasPrefix s p then drop (length p) s else s)"

text \<open>\<^verbatim>\<open>strings.Join(elems, "/")\<close>.\<close>

fun joinSlash :: "string list \<Rightarrow> string" where
  "joinSlash [] = []"
| "joinSlash [e] = e"
| "joinSlash (e # es) = e @ CHR ''/'' # joinSlash es"

text \<open>\<^verbatim>\<open>strings.Split(s, "/")\<close>: the elements between separators, never an empty list.\<close>

fun splitSlash :: "string \<Rightarrow> string list" where
  "splitSlash [] = [[]]"
| "splitSlash (c # cs) =
     (if c = CHR ''/'' then [] # splitSlash cs
      else (case splitSlash cs of [] \<Rightarrow> [[c]] | e # es \<Rightarrow> (c # e) # es))"

text \<open>
  \<^verbatim>\<open>strings.ToLower\<close>: a string of ASCII bytes only has its letters \<^verbatim>\<open>A\<close>..\<^verbatim>\<open>Z\<close>
  mapped to \<^verbatim>\<open>a\<close>..\<^verbatim>\<open>z\<close>; any other string goes through
  \<^verbatim>\<open>strings.Map(unicode.ToLower, s)\<close>, which depends on Go's Unicode tables (and
  replaces invalid UTF-8). That second function is the parameter \<open>uni\<close> of everything below
  that lowers a string; no theorem assumes anything about it.
\<close>

definition isASCII :: "char \<Rightarrow> bool" where
  "isASCII c = ((of_char c :: nat) < 128)"

definition asciiLower :: "char \<Rightarrow> char" where
  "asciiLower c =
     (if (65::nat) \<le> of_char c \<and> (of_char c :: nat) \<le> 90 then char_of (of_char c + (32::nat)) else c)"

definition ToLower :: "(string \<Rightarrow> string) \<Rightarrow> string \<Rightarrow> string" where
  "ToLower uni s = (if list_all isASCII s then map asciiLower s else uni s)"

text \<open>
  \<^verbatim>\<open>strings.ToUpper\<close> on a string of at most one byte, as \<^verbatim>\<open>PrettifyFilename\<close> calls it:
  an ASCII letter is mapped to its capital, and a byte that is not ASCII (invalid UTF-8 on
  its own) becomes the replacement character U+FFFD.
\<close>

definition asciiUpper :: "char \<Rightarrow> char" where
  "asciiUpper c =
     (if (97::nat) \<le> of_char c \<and> (of_char c :: nat) \<le> 122 then char_of (of_char c - (32::nat)) else c)"

definition ToUpperByte :: "string \<Rightarrow> string" where
  "ToUpperByte s = (if list_all isASCII s then map asciiUpper s else [CHR 0xEF, CHR 0xBF, CHR 0xBD])"

text \<open>
  \<^verbatim>\<open>strings.Fields\<close>: a string of ASCII bytes only is split around runs of the six ASCII
  white space bytes; any other string goes through \<^verbatim>\<open>FieldsFunc(s, unicode.IsSpace)\<close>,
  the parameter \<open>uniFields\<close>.
\<close>

definition asciiSpace :: "char \<Rightarrow> bool" where
  "asciiSpace c = (c \<in> set [CHR 0x09, CHR 0x0A, CHR 0x0B, CHR 0x0C, CHR 0x0D, CHR '' ''])"

function asciiFields :: "string \<Rightarrow> string list" where
  "asciiFields [] = []"
| "asciiFields (c # cs) =
     (if asciiSpace c then asciiFields cs
      else (c # takeWhile (\<lambda>x. \<not> asciiSpace x) cs) # asciiFields (dropWhile (\<lambda>x. \<not> asciiSpace x) cs))"
  by pat_completeness auto
termination
  by (relation "measure length") (auto simp: le_imp_less_Suc length_dropWhile_le)

definition Fields :: "(string \<Rightarrow> string list) \<Rightarrow> string \<Rightarrow> string list" where
  "Fields uniFields s = (if list_all isASCII s then asciiFields s else uniFields s)"

text \<open>\<^verbatim>\<open>strings.Join(elems, " ")\<close>.\<close>

fun joinSpace :: "string list \<Rightarrow> string" where
  "joinSpace [] = []"
| "joinSpace [e] = e"
| "joinSpace (e # es) = e @ CHR '' '' # joinSpace es"

subsection \<open>Package path/filepath\<close>

text \<open>
  \<^verbatim>\<open>filepath.Clean\<close> works element by element: empty elements and \<^verbatim>\<open>.\<close> are
  dropped; \<^verbatim>\<open>..\<close> removes the element before it when there is one that is not itself
  \<^verbatim>\<open>..\<close>, is dropped at the root of a rooted path, and is kept otherwise. \<open>out\<close> holds
  the elements written so far.
\<close>

fun cleanElems :: "bool \<Rightarrow> string list \<Rightarrow> string list \<Rightarrow> string list" where
  "cleanElems rooted out [] = out"
| "cleanElems rooted out (e # es) =
     (if e = [] \<or> e = ''.'' then cleanElems rooted out es
      else if e = ''..'' then
        (if out \<noteq> [] \<and> last out \<noteq> ''..'' then cleanElems rooted (butlast out) es
         else if rooted then cleanElems rooted out es
         else cleanElems rooted (out @ [''..'']) es)
      else cleanElems rooted (out @ [e]) es)"

definition Clean :: "string \<Rightarrow> string" where
  "Clean path =
     (if path = [] then ''.''
      else
        let rooted = (hd path = CHR ''/'');
            out = cleanElems rooted [] (splitSlash path)
        in if rooted then CHR ''/'' # joinSlash out
           else if out = [] then ''.''
           else joinSlash out)"

text \<open>\<^verbatim>\<open>filepath.Join\<close>: leading empty elements are skipped, the rest joined and cleaned.\<close>

definition Join :: "string list \<Rightarrow> string" where
  "Join elem = (case dropWhile (\<lambda>e. e = []) elem of [] \<Rightarrow> [] | es \<Rightarrow> Clean (joinSlash es))"

text \<open>\<^verbatim>\<open>filepath.Base\<close>: the last element, after trailing separators are stripped.\<close>

definition Base :: "string \<Rightarrow> string" where
  "Base path =
     (if path = [] then ''.''
      else
        let p = rev (dropWhile (\<lambda>c. c = CHR ''/'') (rev path));
            b = rev (takeWhile (\<lambda>c. c \<noteq> CHR ''/'') (rev p))
        in if b = [] then ''/'' else b)"

text \<open>\<^verbatim>\<open>filepath.Dir\<close>: everything up to the last separator, cleaned.\<close>

definition Dir :: "string \<Rightarrow> string" where
  "Dir path = Clean (rev (dropWhile (\<lambda>c. c \<noteq> CHR ''/'') (rev path)))"

text \<open>
  \<^verbatim>\<open>filepath.Ext\<close>: scanning from the end, the suffix starting at the first dot met
  before any separator; empty when there is none.
\<close>

definition Ext :: "string \<Rightarrow> string" where
  "Ext path =
     (let r = rev path;
          t = takeWhile (\<lambda>c. c \<noteq> CHR ''.'' \<and> c \<noteq> CHR ''/'') r
      in case dropWhile (\<lambda>c. c \<noteq> CHR ''.'' \<and> c \<noteq> CHR ''/'') r of
           [] \<Rightarrow> []
         | c # _ \<Rightarrow> if c = CHR ''.'' then c # rev t else [])"

section \<open>Package utils\<close>

text \<open>\<^verbatim>\<open>GetOutputPath\<close> converts a markdown file path to its HTML output path.\<close>

definition GetOutputPath :: "string \<Rightarrow> string \<Rightarrow> string" where
  "GetOutputPath path baseDir =
     (let baseName = Base path;
          dir = Dir path;
          baseName = TrimSuffix baseName (Ext baseName) @ ''.html''
      in if dir = ''.'' then Join [baseDir, baseName]
         else Join [baseDir, dir, baseName])"

text \<open>
  \<^verbatim>\<open>GetTitleFromMarkdown\<close> extracts the first heading from markdown content: the first
  group of the leftmost match of \<^verbatim>\<open>(?m)^#\s+(.+)$\<close>, or the empty string.

  A match starts with \<^verbatim>\<open>#\<close> at the start of a line. \<^verbatim>\<open>\s+\<close> then takes white space
  (\<^verbatim>\<open>[\t\n\f\r ]\<close>, so it may run over line ends) and \<^verbatim>\<open>(.+)\<close> takes bytes other
  than the line feed, at least one each, up to the end of a line. Both are greedy: when a
  byte follows the whole run of white space, the group starts there (\<open>titleAt\<close>); when the
  white space runs to the end of the text, \<^verbatim>\<open>\s+\<close> gives back bytes until the group can
  start at one that is not a line feed (\<open>backOff\<close>). In either case the group runs to the
  next line feed or to the end of the text.
\<close>

definition isSpaceRe :: "char \<Rightarrow> bool" where
  "isSpaceRe c = (c \<in> set [CHR 0x09, CHR 0x0A, CHR 0x0C, CHR 0x0D, CHR '' ''])"

fun backOff :: "nat \<Rightarrow> string \<Rightarrow> string option" where
  "backOff 0 w = None"
| "backOff (Suc k) w =
     (if w ! Suc k \<noteq> CHR 0x0A then Some (takeWhile (\<lambda>c. c \<noteq> CHR 0x0A) (drop (Suc k) w))
      else backOff k w)"

definition titleAt :: "string \<Rightarrow> string option" where
  "titleAt s =
     (case s of
        [] \<Rightarrow> None
      | c # r \<Rightarrow>
          if c \<noteq> CHR ''#'' then None
          else
            let w = takeWhile isSpaceRe r;
                rest = dropWhile isSpaceRe r
            in if w = [] then None
               else if rest \<noteq> [] then Some (takeWhile (\<lambda>c. c \<noteq> CHR 0x0A) rest)
               else backOff (length w - 1) w)"

fun findTitle :: "bool \<Rightarrow> string \<Rightarrow> string option" where
  "findTitle lineStart [] = None"
| "findTitle lineStart (c # cs) =
     (case (if lineStart then titleAt (c # cs) else None) of
        Some t \<Rightarrow> Some t
      | None \<Rightarrow> findTitle (c = CHR 0x0A) cs)"

definition GetTitleFromMarkdown :: "string \<Rightarrow> string" where
  "GetTitleFromMarkdown content = (case findTitle True content of Some t \<Rightarrow> t | None \<Rightarrow> [])"

text \<open>\<^verbatim>\<open>PrettifyFilename\<close> converts a filename to a more readable title.\<close>

definition PrettifyFilename :: "(string \<Rightarrow> string list) \<Rightarrow> string \<Rightarrow> string" where
  "PrettifyFilename uniFields filename =
     (let name = TrimSuffix filename (Ext filename);
          name = map (\<lambda>c. if c = CHR ''-'' then CHR '' '' else c) name;
          name = map (\<lambda>c. if c = CHR ''_'' then CHR '' '' else c) name;
          words = Fields uniFields name;
          words = map (\<lambda>word. if length word > 0 then ToUpperByte (take 1 word) @ drop 1 word
                              else word) words
      in joinSpace words)"

text \<open>
  \<^verbatim>\<open>strings.Index(s, "#")\<close> for a one-byte separator: the position of its first
  occurrence, or \<open>-1\<close>.
\<close>

definition Index :: "string \<Rightarrow> char \<Rightarrow> int" where
  "Index s c = (if c \<in> set s then int (length (takeWhile (\<lambda>x. x \<noteq> c) s)) else - 1)"

subsection \<open>The two regular expressions\<close>

text \<open>
  The generator compiles two patterns: \<^verbatim>\<open>\[([^\]]+)\]\(([^)]+)\)\<close> in
  \<^verbatim>\<open>ProcessRelativeLinks\<close> and \<^verbatim>\<open>!\[([^\]]*)\]\(([^)]+)\)\<close> in
  \<^verbatim>\<open>GetImageLinkRegex\<close>. In both, each group is a run of bytes that excludes
  the delimiter following it, so a match starting at a given position is unique: the first
  group runs to the first \<^verbatim>\<open>]\<close>, which \<^verbatim>\<open>(\<close> must follow, and the second
  group runs to the first \<^verbatim>\<open>)\<close>. All delimiters are ASCII, so matching bytes and
  matching UTF-8 runes agree.

  \<open>bracketParen allowEmpty s\<close> matches \<^verbatim>\<open>\[(g1)\]\((g2)\)\<close> at the start of \<open>s\<close>
  and returns the two groups and the text after the match; \<open>allowEmpty\<close> tells whether the
  first group is \<^verbatim>\<open>[^\]]*\<close> or \<^verbatim>\<open>[^\]]+\<close>.
\<close>

datatype Regexp = LinkRe | ImageRe

definition bracketParen :: "bool \<Rightarrow> string \<Rightarrow> (string \<times> string \<times> string) option" where
  "bracketParen allowEmpty s =
     (case s of
        [] \<Rightarrow> None
      | c0 # r1 \<Rightarrow>
          if c0 \<noteq> CHR ''['' then None
          else
            let g1 = takeWhile (\<lambda>c. c \<noteq> CHR '']'') r1;
                r2 = dropWhile (\<lambda>c. c \<noteq> CHR '']'') r1
            in if g1 = [] \<and> \<not> allowEmpty then None
               else
                 (case r2 of
                    _ # c2 # r3 \<Rightarrow>
                      if c2 \<noteq> CHR ''('' then None
                      else
                        let g2 = takeWhile (\<lambda>c. c \<noteq> CHR '')'') r3;
                            r4 = dropWhile (\<lambda>c. c \<noteq> CHR '')'') r3
                        in if g2 = [] then None
                           else (case r4 of [] \<Rightarrow> None | _ # rest \<Rightarrow> Some (g1, g2, rest))
                  | _ \<Rightarrow> None))"

text \<open>A match of the pattern anchored at the start of \<open>s\<close>.\<close>

definition matchAt :: "Regexp \<Rightarrow> string \<Rightarrow> (string \<times> string \<times> string) option" where
  "matchAt re s =
     (case re of
        LinkRe \<Rightarrow> bracketParen False s
      | ImageRe \<Rightarrow>
          (case s of
             [] \<Rightarrow> None
           | c # r \<Rightarrow> if c = CHR ''!'' then bracketParen True r else None))"

text \<open>
  \<^verbatim>\<open>re.FindStringSubmatch(s)\<close>: the leftmost match, as the list of the matched text
  and the two groups; the empty list (Go's nil) when nothing matches.
\<close>

fun FindStringSubmatch :: "Regexp \<Rightarrow> string \<Rightarrow> string list" where
  "FindStringSubmatch re [] = []"
| "FindStringSubmatch re (c # cs) =
     (case matchAt re (c # cs) of
        Some (g1, g2, rest) \<Rightarrow> [take (length (c # cs) - length rest) (c # cs), g1, g2]
      | None \<Rightarrow> FindStringSubmatch re cs)"

lemma bracketParen_shorter:
  "bracketParen b s = Some (g1, g2, rest) \<Longrightarrow> length rest < length s"
proof -
  have d: "\<And>P (xs :: string) ys. dropWhile P xs = ys \<Longrightarrow> length ys \<le> length xs"
    using length_dropWhile_le by blast
  assume "bracketParen b s = Some (g1, g2, rest)"
  then show ?thesis
    unfolding bracketParen_def Let_def
    by (auto split: list.splits if_splits dest!: d)
qed

lemma matchAt_shorter:
  "matchAt re s = Some (g1, g2, rest) \<Longrightarrow> length rest < length s"
  unfolding matchAt_def
  by (auto split: Regexp.splits list.splits if_splits dest!: bracketParen_shorter)

text \<open>
  \<^verbatim>\<open>re.ReplaceAllStringFunc(src, repl)\<close>: the leftmost matches that do not overlap are
  replaced by \<open>repl\<close> of the matched text, and everything between them is copied.
\<close>

function ReplaceAllStringFunc :: "Regexp \<Rightarrow> string \<Rightarrow> (string \<Rightarrow> string) \<Rightarrow> string" where
  "ReplaceAllStringFunc re [] repl = []"
| "ReplaceAllStringFunc re (c # cs) repl =
     (case matchAt re (c # cs) of
        Some (g1, g2, rest) \<Rightarrow>
          repl (take (length (c # cs) - length rest) (c # cs)) @ ReplaceAllStringFunc re rest repl
      | None \<Rightarrow> c # ReplaceAllStringFunc re cs repl)"
  by pat_completeness auto
termination
  by (relation "measure (\<lambda>(re, s, repl). length s)") (auto dest: matchAt_shorter)

subsection \<open>Links\<close>

text \<open>\<^verbatim>\<open>isImageLink\<close> and \<^verbatim>\<open>isMarkdownLink\<close> test the lowered link's suffix.\<close>

definition isImageLink :: "(string \<Rightarrow> string) \<Rightarrow> string \<Rightarrow> bool" where
  "isImageLink uni link =
     (let extensions = [''.jpg'', ''.jpeg'', ''.png'', ''.gif'', ''.svg'', ''.webp''];
          lower = ToLower uni link
      in list_ex (\<lambda>ext. HasSuffix lower ext) extensions)"

definition isMarkdownLink :: "(string \<Rightarrow> string) \<Rightarrow> string \<Rightarrow> bool" where
  "isMarkdownLink uni link =
     (let extensions = [''.md'', ''.markdown'', ''.mdown'', ''.mkdn''];
          lower = ToLower uni link
      in list_ex (\<lambda>ext. HasSuffix lower ext) extensions)"

text \<open>
  The resolution of a link target against the directory of the document it stands in
  (\<^verbatim>\<open>baseDir\<close>), as \<^verbatim>\<open>ProcessRelativeLinks\<close> does it for the variable
  \<^verbatim>\<open>resolvedPath\<close>.
\<close>

definition resolvedPath :: "string \<Rightarrow> string \<Rightarrow> string" where
  "resolvedPath baseDir linkTarget =
     (if \<not> HasPrefix linkTarget ''/'' then
        let r = (if HasPrefix linkTarget ''./'' then drop 2 linkTarget else linkTarget)
        in if baseDir \<noteq> ''.'' then Join [baseDir, r] else r
      else drop 1 linkTarget)"

text \<open>The function \<^verbatim>\<open>ProcessRelativeLinks\<close> applies to each match.\<close>

definition linkFunc :: "(string \<Rightarrow> string) \<Rightarrow> string \<Rightarrow> string \<Rightarrow> string" where
  "linkFunc uni baseDir match =
     (let submatch = FindStringSubmatch LinkRe match
      in if length submatch < 3 then match
         else
           let linkText = submatch ! 1;
               linkTarget = submatch ! 2
           in if HasPrefix linkTarget ''http'' \<or> HasPrefix linkTarget ''#'' then match
              else if isImageLink uni linkTarget then match
              else if isMarkdownLink uni linkTarget then
                let idx = Index linkTarget (CHR ''#'');
                    anchor = (if idx > - 1 then drop (nat idx) linkTarget else []);
                    linkTarget = (if idx > - 1 then take (nat idx) linkTarget else linkTarget);
                    htmlPath = ''../'' @ GetOutputPath (resolvedPath baseDir linkTarget) ''docs''
                in ''['' @ linkText @ '']('' @ htmlPath @ anchor @ '')''
              else match)"

text \<open>The parameters \<^verbatim>\<open>owner\<close> and \<^verbatim>\<open>repo\<close> are not used by the function.\<close>

definition ProcessRelativeLinks ::
  "(string \<Rightarrow> string) \<Rightarrow> string \<Rightarrow> string \<Rightarrow> string \<Rightarrow> string \<Rightarrow> string" where
  "ProcessRelativeLinks uni content filePath owner repo =
     (let baseDir = Dir filePath
      in ReplaceAllStringFunc LinkRe content (linkFunc uni baseDir))"

subsection \<open>Navigation entries and their order\<close>

text \<open>\<^verbatim>\<open>DocPage\<close> represents a documentation page for navigation.\<close>

record DocPage =
  Title :: string
  Path :: string
  IsActive :: bool

text \<open>
  \<^verbatim>\<open>SortDocPagesByTitle\<close> and \<^verbatim>\<open>sortContributorsByCommits\<close> are the same pair of
  loops over a slice and differ in the comparison that triggers the exchange of
  \<^verbatim>\<open>s[i]\<close> and \<^verbatim>\<open>s[j]\<close>, the parameter \<open>swapWhen\<close>:
  \<^verbatim>\<open>for i := 0; i < len(s); i++ { for j := i + 1; j < len(s); j++ { if ... { s[i], s[j] = s[j], s[i] } } }\<close>.
  The slice is a list updated by index; all indices are in range.
\<close>

function innerLoop :: "('a \<Rightarrow> 'a \<Rightarrow> bool) \<Rightarrow> nat \<Rightarrow> nat \<Rightarrow> 'a list \<Rightarrow> 'a list" where
  "innerLoop swapWhen i j s =
     (if j < length s then
        innerLoop swapWhen i (Suc j)
          (if swapWhen (s ! i) (s ! j) then s[i := s ! j, j := s ! i] else s)
      else s)"
  by pat_completeness auto
termination
  by (relation "measure (\<lambda>(swapWhen, i, j, s). length s - j)") auto

declare innerLoop.simps [simp del]

lemma length_innerLoop: "length (innerLoop f i j s) = length s"
  by (induction f i j s rule: innerLoop.induct) (subst innerLoop.simps, simp)

function outerLoop :: "('a \<Rightarrow> 'a \<Rightarrow> bool) \<Rightarrow> nat \<Rightarrow> 'a list \<Rightarrow> 'a list" where
  "outerLoop swapWhen i s =
     (if i < length s then outerLoop swapWhen (Suc i) (innerLoop swapWhen i (Suc i) s) else s)"
  by pat_completeness auto
termination
  by (relation "measure (\<lambda>(swapWhen, i, s). length s - i)") (auto simp: length_innerLoop)

declare outerLoop.simps [simp del]

text \<open>Titles are compared as Go compares strings: byte by byte, a proper prefix first.\<close>

definition SortDocPagesByTitle :: "DocPage list \<Rightarrow> DocPage list" where
  "SortDocPagesByTitle pages = outerLoop (\<lambda>a b. Title a > Title b) 0 pages"

section \<open>Package git\<close>

record Contributor =
  Name :: string
  Email :: string
  Commits :: int
  AvatarURL :: string

text \<open>Of a commit, \<^verbatim>\<open>GetRepositoryData\<close> reads the author's name and email here.\<close>

record Commit =
  AuthorName :: string
  AuthorEmail :: string

definition sortContributorsByCommits :: "Contributor list \<Rightarrow> Contributor list" where
  "sortContributorsByCommits contributors = outerLoop (\<lambda>a b. Commits a < Commits b) 0 contributors"

text \<open>
  The part of \<^verbatim>\<open>GetRepositoryData\<close> that fills \<^verbatim>\<open>repoData.Contributors\<close>: every commit
  of the log is counted for its author's email in a map; the map is ranged over into a
  slice; the slice is sorted and cut to five entries. \<open>commits\<close> is the log in the order
  \<^verbatim>\<open>ForEach\<close> visits it, and \<open>rangeOrder\<close> lists the keys of the map in the order in which
  Go's \<^verbatim>\<open>range\<close> visits them, which the language leaves open.
\<close>

definition trackContributor :: "(string \<rightharpoonup> Contributor) \<Rightarrow> Commit \<Rightarrow> (string \<rightharpoonup> Contributor)" where
  "trackContributor contributors c =
     (let email = AuthorEmail c;
          contributors =
            (if contributors email = None then
               contributors(email \<mapsto>
                 \<lparr>Name = AuthorName c, Email = email, Commits = 0,
                  AvatarURL = ''https://avatars.githubusercontent.com/u/0?v=4''\<rparr>)
             else contributors)
      in case contributors email of
           None \<Rightarrow> contributors
         | Some p \<Rightarrow> contributors(email \<mapsto> p\<lparr>Commits := Commits p + 1\<rparr>))"

definition GetRepositoryData_Contributors :: "Commit list \<Rightarrow> string list \<Rightarrow> Contributor list" where
  "GetRepositoryData_Contributors commits rangeOrder =
     (let contributors = foldl trackContributor Map.empty commits;
          s = List.map_filter contributors rangeOrder;
          s = sortContributorsByCommits s
      in if length s > 5 then take 5 s else s)"

section \<open>Package generator\<close>

subsection \<open>Image links\<close>

text \<open>The function \<^verbatim>\<open>processImageLinks\<close> applies to each match.\<close>

definition imageFunc :: "string \<Rightarrow> string \<Rightarrow> string" where
  "imageFunc baseDir match =
     (let submatch = FindStringSubmatch ImageRe match
      in if length submatch < 3 then match
         else
           let altText = submatch ! 1;
               imagePath = submatch ! 2
           in if HasPrefix imagePath ''http'' then match
              else
                let imagePath =
                      (if \<not> HasPrefix imagePath ''/'' then
                         let p = (if HasPrefix imagePath ''./'' then drop 2 imagePath else imagePath)
                         in if baseDir \<noteq> ''.'' then Join [baseDir, p] else p
                       else TrimPrefix imagePath ''/'');
                    localPath = ''../images/'' @ Base imagePath
                in ''!['' @ altText @ '']('' @ localPath @ '')'')"

definition processImageLinks :: "string \<Rightarrow> string \<Rightarrow> string" where
  "processImageLinks content filePath =
     (let baseDir = Dir filePath
      in ReplaceAllStringFunc ImageRe content (imageFunc baseDir))"

subsection \<open>Data\<close>

text \<open>\<^verbatim>\<open>isReadmeFile\<close> of the generator checks if a file is a README.\<close>

definition isReadmeFile :: "(string \<Rightarrow> string) \<Rightarrow> string \<Rightarrow> bool" where
  "isReadmeFile uni filename =
     (let lowerFilename = ToLower uni filename
      in HasPrefix lowerFilename ''readme.'')"

text \<open>
  \<^verbatim>\<open>RepositoryData\<close>, without its two maps: \<^verbatim>\<open>GenerateSite\<close> only ranges over
  \<^verbatim>\<open>MarkdownFiles\<close> (path to content) and \<^verbatim>\<open>ImageFiles\<close> (path to location on disk),
  and takes them as the sequences of entries that each \<^verbatim>\<open>range\<close> loop visits, since Go
  fixes no order and two loops over one map may differ. The field \<^verbatim>\<open>Name\<close> is
  \<open>rdName\<close> here, and the fields of \<^verbatim>\<open>PageData\<close> that share a name with one of
  \<^verbatim>\<open>RepositoryData\<close> carry the prefix \<open>pd\<close>. The last commit's date is an instant.
\<close>

record RepositoryData =
  Owner :: string
  rdName :: string
  Description :: string
  URL :: string
  ReadmeContent :: string
  ReadmePath :: string
  Contributors :: "Contributor list"
  CommitCount :: int
  LastCommitDate :: nat
  License :: string

record Generator =
  repoData :: RepositoryData
  outputDir :: string

record GenerationResult =
  DocsCount :: int
  ImagesCount :: int
  SiteStructure :: string

text \<open>
  \<^verbatim>\<open>PageData\<close> is what a template receives. \<^verbatim>\<open>DocsPages\<close> is a slice, and a slice
  refers to an array in memory: the field holds the address of that array in the heap
  below, so that two slices over one array are two equal addresses.
\<close>

record PageData =
  RepoOwner :: string
  RepoName :: string
  RepoFullName :: string
  pdDescription :: string
  pdCommitCount :: int
  LastUpdate :: string
  pdLicense :: string
  RepoURL :: string
  ReadmeHTML :: string
  pdContributors :: "Contributor list"
  DocsPages :: nat
  CurrentPage :: string
  PageTitle :: string
  PageContent :: string
  GeneratedAt :: string

text \<open>
  The arrays behind the \<^verbatim>\<open>[]DocPage\<close> slices, by address, and the next free address.
\<close>

record Heap =
  arrays :: "nat \<Rightarrow> DocPage list"
  nextAddr :: nat

text \<open>The output directory: the files written, with their content, and the directories made.\<close>

record FS =
  fileContent :: "string \<rightharpoonup> string"
  directories :: "string set"

text \<open>
  What \<^verbatim>\<open>GenerateSite\<close> takes from outside the functions modelled here:
  \<^item> \<open>unicodeLower\<close> and \<open>unicodeFields\<close>, the Unicode parts of \<^verbatim>\<open>strings.ToLower\<close>
    and \<^verbatim>\<open>strings.Fields\<close>;
  \<^item> \<^verbatim>\<open>renderMarkdown\<close> (the gomarkdown library), the formatting of the last commit's
    date, and the formatted reading of the clock when the page of a given source path is made;
  \<^item> the three templates of package templates, the error with which parsing one fails
    (if it does), and the execution of a parsed template on the page data and the array its
    \<^verbatim>\<open>DocsPages\<close> refers to, giving the page or an error;
  \<^item> the operating system: the error with which making a directory or writing a file
    fails (if it does), and the content that copying a file writes, or the error.
\<close>

record Env =
  unicodeLower :: "string \<Rightarrow> string"
  unicodeFields :: "string \<Rightarrow> string list"
  renderMarkdown :: "string \<Rightarrow> string"
  formatDate :: "nat \<Rightarrow> string"
  timeNow :: "string \<Rightarrow> string"
  MainTemplate :: string
  DocTemplate :: string
  StyleTemplate :: string
  parseErr :: "string \<Rightarrow> string \<Rightarrow> string option"
  execute :: "string \<Rightarrow> string \<Rightarrow> PageData \<Rightarrow> DocPage list \<Rightarrow> string + string"
  mkdirAllErr :: "string \<Rightarrow> string option"
  writeFileErr :: "string \<Rightarrow> string option"
  copyResult :: "string \<Rightarrow> string \<Rightarrow> string + string"

subsection \<open>Files\<close>

text \<open>
  Every step that can fail returns its error (a Go error is its message) or the new state.
  \<^verbatim>\<open>GenerateSite\<close> stops at the first error; what a failed run leaves in the output
  directory is not part of the model.
\<close>

definition MkdirAll :: "Env \<Rightarrow> string \<Rightarrow> FS \<Rightarrow> string + FS" where
  "MkdirAll env path fs =
     (case mkdirAllErr env path of
        Some err \<Rightarrow> Inl err
      | None \<Rightarrow> Inr (fs\<lparr>directories := insert path (directories fs)\<rparr>))"

definition WriteFile :: "Env \<Rightarrow> string \<Rightarrow> string \<Rightarrow> FS \<Rightarrow> string + FS" where
  "WriteFile env name content fs =
     (case writeFileErr env name of
        Some err \<Rightarrow> Inl err
      | None \<Rightarrow> Inr (fs\<lparr>fileContent := (fileContent fs)(name \<mapsto> content)\<rparr>))"

definition copyFile :: "Env \<Rightarrow> string \<Rightarrow> string \<Rightarrow> FS \<Rightarrow> string + FS" where
  "copyFile env src dst fs =
     (case copyResult env src dst of
        Inl err \<Rightarrow> Inl err
      | Inr content \<Rightarrow> Inr (fs\<lparr>fileContent := (fileContent fs)(dst \<mapsto> content)\<rparr>))"

definition GenerateRootStyle :: "Env \<Rightarrow> string \<Rightarrow> FS \<Rightarrow> string + FS" where
  "GenerateRootStyle env outDir fs =
     (let stylePath = Join [outDir, ''style.css'']
      in case WriteFile env stylePath (StyleTemplate env) fs of
           Inl err \<Rightarrow> Inl (''failed to write style.css: '' @ err)
         | Inr fs' \<Rightarrow> Inr fs')"

definition parseTemplates :: "Env \<Rightarrow> string option" where
  "parseTemplates env =
     (case parseErr env ''main'' (MainTemplate env) of
        Some err \<Rightarrow> Some (''failed to parse main template: '' @ err)
      | None \<Rightarrow>
          (case parseErr env ''doc'' (DocTemplate env) of
             Some err \<Rightarrow> Some (''failed to parse doc template: '' @ err)
           | None \<Rightarrow> None))"

subsection \<open>Slices\<close>

text \<open>
  \<open>newSlice\<close> puts an array at a fresh address: \<^verbatim>\<open>make([]DocPage, n)\<close> with \<open>n\<close> zero
  values, or the array that the \<^verbatim>\<open>append\<close>s of a loop have built. \<open>copySlice\<close> is Go's
  \<^verbatim>\<open>copy(dst, src)\<close>, which copies as many elements as the shorter of the two holds.
\<close>

definition newSlice :: "DocPage list \<Rightarrow> Heap \<Rightarrow> nat \<times> Heap" where
  "newSlice elems h =
     (nextAddr h, h\<lparr>arrays := (arrays h)(nextAddr h := elems), nextAddr := Suc (nextAddr h)\<rparr>)"

definition copySlice :: "nat \<Rightarrow> nat \<Rightarrow> Heap \<Rightarrow> Heap" where
  "copySlice dst src h =
     (let n = min (length (arrays h dst)) (length (arrays h src))
      in h\<lparr>arrays := (arrays h)(dst := take n (arrays h src) @ drop n (arrays h dst))\<rparr>)"

subsection \<open>Navigation\<close>

text \<open>
  The first loop of \<^verbatim>\<open>GenerateSite\<close> over \<^verbatim>\<open>MarkdownFiles\<close> prepares the list of
  documentation pages for navigation; \<^verbatim>\<open>SortDocPagesByTitle\<close> then sorts the array in
  place.
\<close>

fun docsPagesLoop :: "Env \<Rightarrow> (string \<times> string) list \<Rightarrow> DocPage list \<Rightarrow> DocPage list" where
  "docsPagesLoop env [] docsPages = docsPages"
| "docsPagesLoop env ((path, content) # rest) docsPages =
     (if isReadmeFile (unicodeLower env) (Base path) then docsPagesLoop env rest docsPages
      else
        let title = GetTitleFromMarkdown content;
            title = (if title = [] then PrettifyFilename (unicodeFields env) (Base path) else title);
            outputPath = GetOutputPath path ''docs''
        in docsPagesLoop env rest
             (docsPages @ [\<lparr>Title = title, Path = outputPath, IsActive = False\<rparr>]))"

definition buildNavigation :: "Env \<Rightarrow> (string \<times> string) list \<Rightarrow> Heap \<Rightarrow> nat \<times> Heap" where
  "buildNavigation env markdownFiles h =
     (let (docsPages, h) = newSlice (docsPagesLoop env markdownFiles []) h
      in (docsPages, h\<lparr>arrays := (arrays h)(docsPages := SortDocPagesByTitle (arrays h docsPages))\<rparr>))"

subsection \<open>Pages\<close>

text \<open>
  \<^verbatim>\<open>generateMainPage\<close> and \<^verbatim>\<open>generateDocPage\<close> each prepare the data for the template
  (\<open>mainPageData\<close>, \<open>docPageData\<close>), execute the template and write the file.
  \<open>markActive\<close> is the loop of \<^verbatim>\<open>generateDocPage\<close> over its copy of the navigation.
\<close>

definition mainPageData :: "Env \<Rightarrow> Generator \<Rightarrow> nat \<Rightarrow> PageData" where
  "mainPageData env g docsPages =
     \<lparr>RepoOwner = Owner (repoData g),
      RepoName = rdName (repoData g),
      RepoFullName = Owner (repoData g) @ ''/'' @ rdName (repoData g),
      pdDescription = Description (repoData g),
      pdCommitCount = CommitCount (repoData g),
      LastUpdate = formatDate env (LastCommitDate (repoData g)),
      pdLicense = License (repoData g),
      RepoURL = URL (repoData g),
      ReadmeHTML = renderMarkdown env (ReadmeContent (repoData g)),
      pdContributors = Contributors (repoData g),
      DocsPages = docsPages,
      CurrentPage = ''index.html'',
      PageTitle = Owner (repoData g) @ ''/'' @ rdName (repoData g),
      PageContent = [],
      GeneratedAt = timeNow env ''index.html''\<rparr>"

definition generateMainPage :: "Env \<Rightarrow> Generator \<Rightarrow> nat \<Rightarrow> FS \<times> Heap \<Rightarrow> string + FS \<times> Heap" where
  "generateMainPage env g docsPages st =
     (case st of (fs, h) \<Rightarrow>
        let data = mainPageData env g docsPages
        in case execute env ''main'' (MainTemplate env) data (arrays h (DocsPages data)) of
             Inl err \<Rightarrow> Inl (''failed to execute main template: '' @ err)
           | Inr buf \<Rightarrow>
               let outputPath = Join [outputDir g, ''index.html'']
               in (case WriteFile env outputPath buf fs of
                     Inl err \<Rightarrow> Inl (''failed to write index.html: '' @ err)
                   | Inr fs' \<Rightarrow> Inr (fs', h)))"

function markActive :: "string \<Rightarrow> nat \<Rightarrow> DocPage list \<Rightarrow> DocPage list" where
  "markActive outputPath i currentDocsPages =
     (if i < length currentDocsPages then
        markActive outputPath (Suc i)
          (if Path (currentDocsPages ! i) = outputPath
           then currentDocsPages[i := (currentDocsPages ! i)\<lparr>IsActive := True\<rparr>]
           else currentDocsPages)
      else currentDocsPages)"
  by pat_completeness auto
termination
  by (relation "measure (\<lambda>(outputPath, i, s). length s - i)") auto

declare markActive.simps [simp del]

definition docPageData :: "Env \<Rightarrow> Generator \<Rightarrow> string \<Rightarrow> string \<Rightarrow> nat \<Rightarrow> Heap \<Rightarrow> PageData \<times> Heap" where
  "docPageData env g path content docsPages h =
     (let title = GetTitleFromMarkdown content;
          title = (if title = [] then PrettifyFilename (unicodeFields env) (Base path) else title);
          processedContent =
            ProcessRelativeLinks (unicodeLower env) content path
              (Owner (repoData g)) (rdName (repoData g));
          processedContent = processImageLinks processedContent path;
          contentHTML = renderMarkdown env processedContent;
          (currentDocsPages, h) =
            newSlice (replicate (length (arrays h docsPages))
                        \<lparr>Title = [], Path = [], IsActive = False\<rparr>) h;
          h = copySlice currentDocsPages docsPages h;
          outputPath = GetOutputPath path ''docs'';
          h = h\<lparr>arrays := (arrays h)
                 (currentDocsPages := markActive outputPath 0 (arrays h currentDocsPages))\<rparr>
      in (\<lparr>RepoOwner = Owner (repoData g),
           RepoName = rdName (repoData g),
           RepoFullName = Owner (repoData g) @ ''/'' @ rdName (repoData g),
           pdDescription = Description (repoData g),
           pdCommitCount = CommitCount (repoData g),
           LastUpdate = formatDate env (LastCommitDate (repoData g)),
           pdLicense = License (repoData g),
           RepoURL = URL (repoData g),
           ReadmeHTML = [],
           pdContributors = [],
           DocsPages = currentDocsPages,
           CurrentPage = outputPath,
           PageTitle = title @ '' - '' @ Owner (repoData g) @ ''/'' @ rdName (repoData g),
           PageContent = contentHTML,
           GeneratedAt = timeNow env path\<rparr>, h))"

definition generateDocPage ::
  "Env \<Rightarrow> Generator \<Rightarrow> string \<Rightarrow> string \<Rightarrow> nat \<Rightarrow> FS \<times> Heap \<Rightarrow> string + FS \<times> Heap" where
  "generateDocPage env g path content docsPages st =
     (case st of (fs, h) \<Rightarrow>
        let (data, h) = docPageData env g path content docsPages h
        in case execute env ''doc'' (DocTemplate env) data (arrays h (DocsPages data)) of
             Inl err \<Rightarrow> Inl (''failed to execute doc template: '' @ err)
           | Inr buf \<Rightarrow>
               let outPath = Join [outputDir g, CurrentPage data]
               in (case MkdirAll env (Dir outPath) fs of
                     Inl err \<Rightarrow> Inl (''failed to create directory for '' @ outPath @ '': '' @ err)
                   | Inr fs \<Rightarrow>
                       (case WriteFile env outPath buf fs of
                          Inl err \<Rightarrow> Inl (''failed to write '' @ outPath @ '': '' @ err)
                        | Inr fs \<Rightarrow> Inr (fs, h))))"

fun copyImages ::
  "Env \<Rightarrow> Generator \<Rightarrow> (string \<times> string) list \<Rightarrow> FS \<Rightarrow> int \<Rightarrow> string + FS \<times> int" where
  "copyImages env g [] fs imagesCount = Inr (fs, imagesCount)"
| "copyImages env g ((relativePath, sourcePath) # rest) fs imagesCount =
     (let destPath = Join [outputDir g, ''images'', Base relativePath]
      in case copyFile env sourcePath destPath fs of
           Inl err \<Rightarrow> Inl (''failed to copy image '' @ relativePath @ '': '' @ err)
         | Inr fs \<Rightarrow> copyImages env g rest fs (imagesCount + 1))"

fun generateDocPages ::
  "Env \<Rightarrow> Generator \<Rightarrow> (string \<times> string) list \<Rightarrow> nat \<Rightarrow> FS \<times> Heap \<Rightarrow> int
     \<Rightarrow> string + (FS \<times> Heap) \<times> int" where
  "generateDocPages env g [] docsPages st docsCount = Inr (st, docsCount)"
| "generateDocPages env g ((path, content) # rest) docsPages st docsCount =
     (if isReadmeFile (unicodeLower env) (Base path)
      then generateDocPages env g rest docsPages st docsCount
      else
        (case generateDocPage env g path content docsPages st of
           Inl err \<Rightarrow> Inl (''failed to generate doc page for '' @ path @ '': '' @ err)
         | Inr st \<Rightarrow> generateDocPages env g rest docsPages st (docsCount + 1)))"

subsection \<open>The summary of the site structure\<close>

text \<open>
  \<^verbatim>\<open>fmt.Sprintf("%d", n)\<close>, and the box-drawing characters of the summary in UTF-8.
\<close>

definition digitChar :: "nat \<Rightarrow> char" where
  "digitChar d = char_of (48 + d)"

function showNat :: "nat \<Rightarrow> string" where
  "showNat n = (if n < 10 then [digitChar n] else showNat (n div 10) @ [digitChar (n mod 10)])"
  by pat_completeness auto
termination
  by (relation "measure id") auto

declare showNat.simps [simp del]

definition formatInt :: "int \<Rightarrow> string" where
  "formatInt i = (if i < 0 then ''-'' @ showNat (nat (- i)) else showNat (nat i))"

definition boxTee :: string where "boxTee = [CHR 0xE2, CHR 0x94, CHR 0x9C]"
definition boxDash :: string where "boxDash = [CHR 0xE2, CHR 0x94, CHR 0x80]"
definition boxBar :: string where "boxBar = [CHR 0xE2, CHR 0x94, CHR 0x82]"
definition boxEll :: string where "boxEll = [CHR 0xE2, CHR 0x94, CHR 0x94]"

fun structureLines :: "DocPage list \<Rightarrow> string" where
  "structureLines [] = []"
| "structureLines (page # rest) =
     (let prefix = (if rest = [] then ''  '' @ boxBar @ ''   '' @ boxEll @ boxDash @ boxDash @ '' ''
                    else ''  '' @ boxBar @ ''   '' @ boxTee @ boxDash @ boxDash @ '' '')
      in prefix @ Base (Path page) @ [CHR 0x0A] @ structureLines rest)"

definition siteStructure :: "string \<Rightarrow> DocPage list \<Rightarrow> int \<Rightarrow> string" where
  "siteStructure outDir docsPages imagesCount =
     outDir @ ''/'' @ [CHR 0x0A]
     @ ''  '' @ boxTee @ boxDash @ boxDash @ '' index.html'' @ [CHR 0x0A]
     @ ''  '' @ boxTee @ boxDash @ boxDash @ '' docs/'' @ [CHR 0x0A]
     @ (if length docsPages > 0 then structureLines docsPages
        else ''  '' @ boxBar @ ''   '' @ boxEll @ boxDash @ boxDash @ '' (empty)'' @ [CHR 0x0A])
     @ (if imagesCount > 0 then
          ''  '' @ boxEll @ boxDash @ boxDash @ '' images/'' @ [CHR 0x0A]
          @ ''      '' @ boxEll @ boxDash @ boxDash @ '' ... ('' @ formatInt imagesCount
          @ '' files)'' @ [CHR 0x0A]
        else
          ''  '' @ boxEll @ boxDash @ boxDash @ '' images/'' @ [CHR 0x0A]
          @ ''      '' @ boxEll @ boxDash @ boxDash @ '' (empty)'' @ [CHR 0x0A])"

subsection \<open>The site\<close>

text \<open>
  \<^verbatim>\<open>GenerateSite\<close> generates the complete static site. \<open>imageFiles\<close> are the entries
  of \<^verbatim>\<open>ImageFiles\<close> in the order of the loop that copies them; \<open>markdownFiles1\<close> and
  \<open>markdownFiles2\<close> are the entries of \<^verbatim>\<open>MarkdownFiles\<close> in the order of the loop that
  prepares the navigation and of the loop that generates the pages.
\<close>

definition GenerateSite ::
  "Env \<Rightarrow> Generator \<Rightarrow> (string \<times> string) list \<Rightarrow> (string \<times> string) list
     \<Rightarrow> (string \<times> string) list \<Rightarrow> FS \<times> Heap \<Rightarrow> string + GenerationResult \<times> FS \<times> Heap" where
  "GenerateSite env g imageFiles markdownFiles1 markdownFiles2 st =
     (case st of (fs, h) \<Rightarrow>
      let docsDir = Join [outputDir g, ''docs'']
      in case MkdirAll env docsDir fs of
        Inl err \<Rightarrow> Inl (''failed to create docs directory: '' @ err)
      | Inr fs \<Rightarrow>
      (case GenerateRootStyle env (outputDir g) fs of
        Inl err \<Rightarrow> Inl (''failed to write style.css: '' @ err)
      | Inr fs \<Rightarrow>
      let imagesDir = Join [outputDir g, ''images'']
      in (case MkdirAll env imagesDir fs of
        Inl err \<Rightarrow> Inl (''failed to create images directory: '' @ err)
      | Inr fs \<Rightarrow>
      (case parseTemplates env of
        Some err \<Rightarrow> Inl (''failed to parse templates: '' @ err)
      | None \<Rightarrow>
      (case copyImages env g imageFiles fs 0 of
        Inl err \<Rightarrow> Inl err
      | Inr (fs, imagesCount) \<Rightarrow>
      let (docsPages, h) = buildNavigation env markdownFiles1 h
      in (case generateMainPage env g docsPages (fs, h) of
        Inl err \<Rightarrow> Inl (''failed to generate main page: '' @ err)
      | Inr st \<Rightarrow>
      (case generateDocPages env g markdownFiles2 docsPages st 0 of
        Inl err \<Rightarrow> Inl err
      | Inr ((fs, h), docsCount) \<Rightarrow>
          Inr (\<lparr>DocsCount = docsCount, ImagesCount = imagesCount,
                SiteStructure = siteStructure (outputDir g) (arrays h docsPages) imagesCount\<rparr>,
               fs, h))))))))"

section \<open>Notions used to state the properties\<close>

subsection \<open>Paths of the snapshot\<close>

text \<open>
  The paths of the snapshot's documents come from \<^verbatim>\<open>filepath.Rel\<close> of a file below the
  repository root: directory names followed by a file name, each a proper path element (not
  empty, without separator, neither \<^verbatim>\<open>.\<close> nor \<^verbatim>\<open>..\<close>). \<open>dirPrefix dirs\<close> is the
  directory prefix of such a path, each directory followed by its separator.
\<close>

definition validElem :: "string \<Rightarrow> bool" where
  "validElem e = (e \<noteq> [] \<and> CHR ''/'' \<notin> set e \<and> e \<noteq> ''.'' \<and> e \<noteq> ''..'')"

definition dirPrefix :: "string list \<Rightarrow> string" where
  "dirPrefix dirs = concat (map (\<lambda>d. d @ ''/'') dirs)"

subsection \<open>Link and embed syntax\<close>

text \<open>
  The text of a link \<^verbatim>\<open>[label](target)\<close> and of an image embed \<^verbatim>\<open>![alt](target)\<close>.
\<close>

definition linkSyntax :: "string \<Rightarrow> string \<Rightarrow> string" where
  "linkSyntax lbl target = ''['' @ lbl @ '']('' @ target @ '')''"


text \<open>
  \<open>noMatchBegins re pre s\<close>: in the text \<open>pre @ s\<close> no match of the pattern begins at a
  position of \<open>pre\<close>, so that the first match a pass finds in \<open>pre @ s\<close>, if any, begins
  in \<open>s\<close>.
\<close>

definition noMatchBegins :: "Regexp \<Rightarrow> string \<Rightarrow> string \<Rightarrow> bool" where
  "noMatchBegins re pre s =
     list_all (\<lambda>i. matchAt re (drop i pre @ s) = None) [0..<length pre]"

subsection \<open>Order\<close>

text \<open>
  \<open>settled key i s\<close>: each of the first \<open>i\<close> elements of \<open>s\<close> has a key that is at most the
  key of every element after it.
\<close>

definition settled :: "('a \<Rightarrow> 'k::linorder) \<Rightarrow> nat \<Rightarrow> 'a list \<Rightarrow> bool" where
  "settled key i s = (\<forall>a b. a < i \<and> a < b \<and> b < length s \<longrightarrow> key (s ! a) \<le> key (s ! b))"

subsection \<open>Documents and their navigation entries\<close>

text \<open>
  \<open>notReadme env\<close> holds of the documents that \<^verbatim>\<open>GenerateSite\<close> does not skip, and
  \<open>navEntry env\<close> is the navigation entry made for a document.
\<close>

definition notReadme :: "Env \<Rightarrow> string \<times> string \<Rightarrow> bool" where
  "notReadme env = (\<lambda>(path, content). \<not> isReadmeFile (unicodeLower env) (Base path))"

definition navEntry :: "Env \<Rightarrow> string \<times> string \<Rightarrow> DocPage" where
  "navEntry env = (\<lambda>(path, content).
     \<lparr>Title = (if GetTitleFromMarkdown content = [] then PrettifyFilename (unicodeFields env) (Base path)
               else GetTitleFromMarkdown content),
      Path = GetOutputPath path ''docs'', IsActive = False\<rparr>)"

subsection \<open>A sample run\<close>

text \<open>
  An environment in which nothing fails and a rendered page is its processed text; a
  repository; an empty heap and an empty output directory; and three documents.
\<close>

definition env0 :: Env where
  "env0 = \<lparr>unicodeLower = id, unicodeFields = (\<lambda>s. [s]),
     renderMarkdown = id, formatDate = (\<lambda>t. []), timeNow = (\<lambda>p. []),
     MainTemplate = ''main'', DocTemplate = ''doc'', StyleTemplate = ''css'',
     parseErr = (\<lambda>n t. None), execute = (\<lambda>n t d nav. Inr (PageContent d)),
     mkdirAllErr = (\<lambda>p. None), writeFileErr = (\<lambda>p. None), copyResult = (\<lambda>s d. Inr s)\<rparr>"

definition g0 :: Generator where
  "g0 = \<lparr>repoData = \<lparr>Owner = ''go-i2p'', rdName = ''go-gh-page'', Description = [], URL = [],
      ReadmeContent = ''# Hi'', ReadmePath = ''README.md'', Contributors = [], CommitCount = 3,
      LastCommitDate = 0, License = []\<rparr>, outputDir = ''out''\<rparr>"

definition heap0 :: Heap where
  "heap0 = \<lparr>arrays = (\<lambda>a. []), nextAddr = 0\<rparr>"

definition fs0 :: FS where
  "fs0 = \<lparr>fileContent = Map.empty, directories = {}\<rparr>"

definition docs0 :: "(string \<times> string) list" where
  "docs0 = [(''README.md'', ''# Hi''), (''docs/README.md'', ''x''), (''docs/a.md'', ''A'')]"

section \<open>Properties of the path functions\<close>

lemma splitSlash_noslash: "CHR ''/'' \<notin> set e \<Longrightarrow> splitSlash e = [e]"
  by (induction e) auto

lemma splitSlash_append:
  "CHR ''/'' \<notin> set e \<Longrightarrow> splitSlash (e @ CHR ''/'' # s) = e # splitSlash s"
  by (induction e) auto

lemma splitSlash_dirPrefix:
  "list_all validElem dirs \<Longrightarrow> splitSlash (dirPrefix dirs @ s) = dirs @ splitSlash s"
  by (induction dirs) (auto simp: dirPrefix_def validElem_def splitSlash_append)

lemma cleanElems_valid:
  "list_all validElem es \<Longrightarrow> cleanElems r out (es @ rest) = cleanElems r (out @ es) rest"
  by (induction es arbitrary: out) (auto simp: validElem_def)

lemma joinSlash_snoc:
  "dirs \<noteq> [] \<Longrightarrow> joinSlash (dirs @ [f]) = joinSlash dirs @ CHR ''/'' # f"
  by (induction dirs rule: joinSlash.induct) auto

lemma joinSlash_dirPrefix: "joinSlash (dirs @ [f]) = dirPrefix dirs @ f"
  by (induction dirs rule: joinSlash.induct) (auto simp: dirPrefix_def)

lemma dirPrefix_hd: "list_all validElem dirs \<Longrightarrow> dirs \<noteq> [] \<Longrightarrow> hd (dirPrefix dirs @ s) \<noteq> CHR ''/''"
proof (cases dirs)
  case Nil
  assume "dirs \<noteq> []"
  then show ?thesis using Nil by simp
next
  case (Cons d ds)
  assume "list_all validElem dirs"
  then have "d \<noteq> []" "CHR ''/'' \<notin> set d" using Cons by (auto simp: validElem_def)
  then have "hd d \<noteq> CHR ''/''" by (metis hd_in_set)
  then show ?thesis using Cons \<open>d \<noteq> []\<close> by (simp add: dirPrefix_def)
qed

lemma Clean_valid:
  assumes "list_all validElem es" "es \<noteq> []"
  shows "Clean (joinSlash es) = joinSlash es"
proof -
  obtain ds f where es: "es = ds @ [f]" using assms(2) by (metis rev_exhaust)
  have v: "list_all validElem ds" "validElem f" using assms(1) es by auto
  have j: "joinSlash es = dirPrefix ds @ f" by (simp add: es joinSlash_dirPrefix)
  have ne: "dirPrefix ds @ f \<noteq> []" using v(2) by (simp add: validElem_def)
  have h: "hd (dirPrefix ds @ f) \<noteq> CHR ''/''"
  proof (cases ds)
    case Nil then show ?thesis using v(2) by (cases f) (auto simp: dirPrefix_def validElem_def)
  next
    case Cons then show ?thesis using dirPrefix_hd[OF v(1)] by simp
  qed
  have s: "splitSlash (dirPrefix ds @ f) = ds @ [f]"
    using v by (simp add: splitSlash_dirPrefix splitSlash_noslash validElem_def)
  have c: "cleanElems False [] (ds @ [f]) = ds @ [f]"
    using cleanElems_valid[of "ds @ [f]" False "[]" "[]"] v by simp
  show ?thesis unfolding j using ne h s c
    by (simp add: Clean_def Let_def joinSlash_dirPrefix)
qed

lemma Clean_dirPrefix:
  assumes "list_all validElem ds"
  shows "Clean (dirPrefix ds) = (if ds = [] then ''.'' else joinSlash ds)"
proof (cases ds)
  case Nil then show ?thesis by (simp add: dirPrefix_def Clean_def)
next
  case (Cons d ds')
  have ne: "dirPrefix ds \<noteq> []" using Cons by (simp add: dirPrefix_def)
  have h: "hd (dirPrefix ds) \<noteq> CHR ''/''" using dirPrefix_hd[OF assms, of "[]"] Cons by simp
  have s: "splitSlash (dirPrefix ds) = ds @ [[]]"
    using splitSlash_dirPrefix[OF assms, of "[]"] by simp
  have c: "cleanElems False [] (ds @ [[]]) = ds"
    using cleanElems_valid[OF assms, of False "[]" "[[]]"] by simp
  show ?thesis using ne h s c Cons by (simp add: Clean_def Let_def)
qed

lemma Base_file:
  assumes "list_all validElem ds" "f \<noteq> []" "CHR ''/'' \<notin> set f"
  shows "Base (dirPrefix ds @ f) = f"
proof -
  have l: "last f \<noteq> CHR ''/''" using assms(2,3) by (metis last_in_set)
  have d: "dropWhile (\<lambda>c. c = CHR ''/'') (rev f @ rev (dirPrefix ds)) = rev f @ rev (dirPrefix ds)"
    using assms(2) l by (cases "rev f") (auto simp: last_rev hd_rev)
  have t: "takeWhile (\<lambda>c. c \<noteq> CHR ''/'') (rev f @ rev (dirPrefix ds)) = rev f"
  proof (cases ds rule: rev_cases)
    case Nil then show ?thesis using assms(3) by (auto simp: dirPrefix_def)
  next
    case (snoc ds' d)
    then have "rev (dirPrefix ds) = CHR ''/'' # rev d @ rev (dirPrefix ds')"
      by (simp add: dirPrefix_def)
    then show ?thesis using assms(3) by (simp add: takeWhile_append)
  qed
  show ?thesis using assms(2) d t by (simp add: Base_def Let_def)
qed

lemma Dir_file:
  assumes "list_all validElem ds" "CHR ''/'' \<notin> set f"
  shows "Dir (dirPrefix ds @ f) = (if ds = [] then ''.'' else joinSlash ds)"
proof -
  have "dropWhile (\<lambda>c. c \<noteq> CHR ''/'') (rev f @ rev (dirPrefix ds)) = rev (dirPrefix ds)"
  proof (cases ds rule: rev_cases)
    case Nil then show ?thesis using assms(2) by (auto simp: dirPrefix_def dropWhile_append)
  next
    case (snoc ds' d)
    then have "rev (dirPrefix ds) = CHR ''/'' # rev d @ rev (dirPrefix ds')"
      by (simp add: dirPrefix_def)
    then show ?thesis using assms(2) by (simp add: dropWhile_append)
  qed
  then show ?thesis using Clean_dirPrefix[OF assms(1)] by (simp add: Dir_def)
qed

lemma Ext_stem:
  assumes "CHR ''.'' \<notin> set ext" "CHR ''/'' \<notin> set ext"
  shows "Ext (stem @ ''.'' @ ext) = ''.'' @ ext"
  using assms by (auto simp: Ext_def Let_def takeWhile_append dropWhile_append)

lemma TrimSuffix_append: "TrimSuffix (a @ b) b = a"
  by (simp add: TrimSuffix_def HasSuffix_def)

lemma joinSlash_not_dot:
  assumes "list_all validElem ds" "ds \<noteq> []"
  shows "joinSlash ds \<noteq> ''.''"
proof (cases ds)
  case Nil then show ?thesis using assms(2) by simp
next
  case (Cons d ds')
  then have d: "d \<noteq> []" "d \<noteq> ''.''" using assms(1) by (auto simp: validElem_def)
  show ?thesis
  proof (cases ds')
    case Nil then show ?thesis using Cons d by simp
  next
    case (Cons e es)
    then show ?thesis using \<open>ds = d # ds'\<close> d by (cases d) auto
  qed
qed

lemma Join_valid:
  assumes "list_all validElem es" "es \<noteq> []"
  shows "Join es = joinSlash es"
proof -
  have "dropWhile (\<lambda>e. e = []) es = es"
    using assms by (cases es) (auto simp: validElem_def)
  then show ?thesis using assms by (cases es) (auto simp: Join_def Clean_valid)
qed

text \<open>
  C1. For the path of a document, \<^verbatim>\<open>GetOutputPath(path, "docs")\<close> replaces the extension
  of the file name by \<^verbatim>\<open>.html\<close> and keeps the directory prefix below \<^verbatim>\<open>docs\<close>: a file
  at the root of the snapshot (no directory, \<^verbatim>\<open>filepath.Dir\<close> is \<^verbatim>\<open>.\<close>) goes to
  \<^verbatim>\<open>docs/<name>.html\<close>, a file \<^verbatim>\<open>d/f.md\<close> to \<^verbatim>\<open>docs/d/f.html\<close>.
\<close>

theorem GetOutputPath_document:
  assumes "list_all validElem dirs"
    and "validElem (stem @ ''.'' @ ext)"
    and "CHR ''.'' \<notin> set ext"
  shows "GetOutputPath (dirPrefix dirs @ stem @ ''.'' @ ext) ''docs''
           = ''docs/'' @ dirPrefix dirs @ stem @ ''.html''
         \<and> (Dir (dirPrefix dirs @ stem @ ''.'' @ ext) = ''.'' \<longleftrightarrow> dirs = [])"
proof -
  let ?f = "stem @ ''.'' @ ext"
  let ?n = "stem @ ''.html''"
  have f: "?f \<noteq> []" "CHR ''/'' \<notin> set ?f" using assms(2) by (auto simp: validElem_def)
  have b: "Base (dirPrefix dirs @ ?f) = ?f" using Base_file[OF assms(1) f] .
  have d: "Dir (dirPrefix dirs @ ?f) = (if dirs = [] then ''.'' else joinSlash dirs)"
    using Dir_file[OF assms(1) f(2)] .
  have e: "Ext ?f = ''.'' @ ext" using Ext_stem[OF assms(3)] f(2) by simp
  have t: "TrimSuffix ?f (Ext ?f) = stem"
    unfolding e using TrimSuffix_append[of stem "''.'' @ ext"] by simp
  have n: "validElem ?n" using f(2) by (auto simp: validElem_def)
  have docs: "validElem ''docs''" by (simp add: validElem_def)
  have root: "Join [''docs'', ?n] = ''docs/'' @ ?n"
    using Join_valid[of "[''docs'', ?n]"] n docs by simp
  have sub: "Join [''docs'', joinSlash dirs, ?n] = ''docs/'' @ dirPrefix dirs @ ?n" if ne: "dirs \<noteq> []"
  proof -
    have v: "list_all validElem ((''docs'' # dirs) @ [?n])" using assms(1) n docs by simp
    obtain d0 ds where ds: "dirs = d0 # ds" using ne by (cases dirs) simp_all
    then have d0: "d0 \<noteq> []" using assms(1) by (auto simp: validElem_def)
    have "joinSlash dirs \<noteq> []" using ds d0 by (cases ds) auto
    then have "Join [''docs'', joinSlash dirs, ?n] = Clean (joinSlash [''docs'', joinSlash dirs, ?n])"
      by (simp add: Join_def)
    also have "joinSlash [''docs'', joinSlash dirs, ?n] = joinSlash ((''docs'' # dirs) @ [?n])"
      using ne joinSlash_snoc[of dirs ?n] ds by simp
    also have "Clean \<dots> = joinSlash ((''docs'' # dirs) @ [?n])"
      using Clean_valid[OF v] by simp
    also have "\<dots> = ''docs/'' @ dirPrefix dirs @ ?n"
      using joinSlash_dirPrefix[of "''docs'' # dirs" ?n] by (simp add: dirPrefix_def)
    finally show ?thesis .
  qed
  have nd: "joinSlash dirs \<noteq> ''.''" if "dirs \<noteq> []"
    using joinSlash_not_dot[OF assms(1) that] .
  have out: "GetOutputPath (dirPrefix dirs @ ?f) ''docs'' = ''docs/'' @ dirPrefix dirs @ ?n"
  proof (cases "dirs = []")
    case True
    then show ?thesis using b d t root by (simp add: GetOutputPath_def Let_def dirPrefix_def)
  next
    case False
    then show ?thesis using b d t sub nd by (simp add: GetOutputPath_def Let_def)
  qed
  have "Dir (dirPrefix dirs @ ?f) = ''.'' \<longleftrightarrow> dirs = []" using d nd by auto
  with out show ?thesis by simp
qed

theorem GetOutputPath_document_witness:
  "GetOutputPath ''d/f.md'' ''docs'' = ''docs/d/f.html''
   \<and> GetOutputPath ''README.md'' ''docs'' = ''docs/README.html''
   \<and> Dir ''README.md'' = ''.''
   \<and> Dir ''d/f.md'' \<noteq> ''.''"
  using GetOutputPath_document [of "[''d'']" "''f''" "''md''"]
    GetOutputPath_document [of "[]" "''README''" "''md''"]
  by (simp add: validElem_def dirPrefix_def)

section \<open>Properties of the two rewriting passes\<close>

subsection \<open>Matching and replacing\<close>

lemma bracketParen_match:
  assumes "CHR '']'' \<notin> set g1" "g1 \<noteq> [] \<or> b" "g2 \<noteq> []" "CHR '')'' \<notin> set g2"
  shows "bracketParen b (''['' @ g1 @ '']('' @ g2 @ '')'' @ rest) = Some (g1, g2, rest)"
proof -
  have t1: "takeWhile (\<lambda>c. c \<noteq> CHR '']'') (g1 @ '']('' @ g2 @ '')'' @ rest) = g1"
    using assms(1) by (simp add: takeWhile_append)
  have d1: "dropWhile (\<lambda>c. c \<noteq> CHR '']'') (g1 @ '']('' @ g2 @ '')'' @ rest) = '']('' @ g2 @ '')'' @ rest"
    using assms(1) by (simp add: dropWhile_append)
  have t2: "takeWhile (\<lambda>c. c \<noteq> CHR '')'') (g2 @ '')'' @ rest) = g2"
    using assms(4) by (simp add: takeWhile_append)
  have d2: "dropWhile (\<lambda>c. c \<noteq> CHR '')'') (g2 @ '')'' @ rest) = '')'' @ rest"
    using assms(4) by (simp add: dropWhile_append)
  show ?thesis
    using assms(2,3) t1 d1 t2 d2 by (auto simp: bracketParen_def Let_def)
qed

lemma matchAt_link:
  assumes "lbl \<noteq> []" "CHR '']'' \<notin> set lbl" "target \<noteq> []" "CHR '')'' \<notin> set target"
  shows "matchAt LinkRe (linkSyntax lbl target @ rest) = Some (lbl, target, rest)"
  using bracketParen_match[of lbl False target rest] assms
  by (simp add: matchAt_def linkSyntax_def)


lemma FindStringSubmatch_link:
  assumes "lbl \<noteq> []" "CHR '']'' \<notin> set lbl" "target \<noteq> []" "CHR '')'' \<notin> set target"
  shows "FindStringSubmatch LinkRe (linkSyntax lbl target) = [linkSyntax lbl target, lbl, target]"
proof -
  obtain c cs where l: "linkSyntax lbl target = c # cs" by (simp add: linkSyntax_def)
  have "matchAt LinkRe (c # cs) = Some (lbl, target, [])"
    using matchAt_link[OF assms, of "[]"] l by simp
  then show ?thesis using l by simp
qed


lemma matchAt_LinkRe_first: "matchAt LinkRe (c # s) = Some r \<Longrightarrow> c = CHR ''[''"
  by (auto simp: matchAt_def bracketParen_def split: if_splits)

lemma matchAt_ImageRe_first: "matchAt ImageRe (c # s) = Some r \<Longrightarrow> c = CHR ''!''"
  by (auto simp: matchAt_def split: if_splits)


lemma noMatchBegins_Nil: "noMatchBegins re [] s"
  by (simp add: noMatchBegins_def)

lemma noMatchBegins_all:
  "noMatchBegins re pre s = (\<forall>i<length pre. matchAt re (drop i pre @ s) = None)"
  by (auto simp: noMatchBegins_def list_all_iff)

lemma noMatchBegins_Cons:
  "noMatchBegins re (c # pre) s
     = (matchAt re (c # pre @ s) = None \<and> noMatchBegins re pre s)"
proof -
  have "(\<forall>i<Suc (length pre). matchAt re (drop i (c # pre) @ s) = None)
          = (matchAt re (c # pre @ s) = None
             \<and> (\<forall>i<length pre. matchAt re (drop i pre @ s) = None))"
    by (auto simp: less_Suc_eq_0_disj)
  then show ?thesis by (simp add: noMatchBegins_all)
qed


text \<open>
  A match of the link pattern begins with \<^verbatim>\<open>[\<close> and a match of the image pattern with
  \<^verbatim>\<open>!\<close>: no match begins in a text without that byte.
\<close>

lemma noMatchBegins_LinkRe_plain: "CHR ''['' \<notin> set pre \<Longrightarrow> noMatchBegins LinkRe pre s"
proof (induction pre)
  case Nil show ?case by (rule noMatchBegins_Nil)
next
  case (Cons c pre)
  then have "matchAt LinkRe (c # pre @ s) = None"
    using matchAt_LinkRe_first[of c "pre @ s"] by (cases "matchAt LinkRe (c # pre @ s)") auto
  then show ?case using Cons by (simp add: noMatchBegins_Cons)
qed

lemma noMatchBegins_ImageRe_plain: "CHR ''!'' \<notin> set pre \<Longrightarrow> noMatchBegins ImageRe pre s"
proof (induction pre)
  case Nil show ?case by (rule noMatchBegins_Nil)
next
  case (Cons c pre)
  then have "matchAt ImageRe (c # pre @ s) = None"
    using matchAt_ImageRe_first[of c "pre @ s"] by (cases "matchAt ImageRe (c # pre @ s)") auto
  then show ?case using Cons by (simp add: noMatchBegins_Cons)
qed


subsection \<open>The replacement functions on one link or embed\<close>

lemma linkFunc_unchanged:
  assumes "lbl \<noteq> []" "CHR '']'' \<notin> set lbl" "target \<noteq> []" "CHR '')'' \<notin> set target"
    and "HasPrefix target ''http'' \<or> HasPrefix target ''#'' \<or> isImageLink uni target
         \<or> \<not> isMarkdownLink uni target"
  shows "linkFunc uni baseDir (linkSyntax lbl target) = linkSyntax lbl target"
  using assms(5) by (auto simp: linkFunc_def Let_def FindStringSubmatch_link[OF assms(1-4)])

lemma linkFunc_markdown:
  assumes "lbl \<noteq> []" "CHR '']'' \<notin> set lbl" "target \<noteq> []" "CHR '')'' \<notin> set target"
    and "\<not> HasPrefix target ''http''" "\<not> HasPrefix target ''#''"
    and "\<not> isImageLink uni target" "isMarkdownLink uni target" "CHR ''#'' \<notin> set target"
  shows "linkFunc uni baseDir (linkSyntax lbl target)
           = linkSyntax lbl (''../'' @ GetOutputPath (resolvedPath baseDir target) ''docs'')"
proof -
  have "linkFunc uni baseDir (linkSyntax lbl target)
          = ''['' @ lbl @ '']('' @ (''../'' @ GetOutputPath (resolvedPath baseDir target) ''docs'') @ [] @ '')''"
    using assms(5-9)
    by (simp add: linkFunc_def Let_def FindStringSubmatch_link[OF assms(1-4)] Index_def)
  then show ?thesis by (simp add: linkSyntax_def)
qed







subsection \<open>The claims about rewriting\<close>

text \<open>
  C2, as the specification states it: rewriting \<^verbatim>\<open>[Guide](./guide.md#setup)\<close> in the
  document \<^verbatim>\<open>docs/intro.md\<close> gives a link to \<^verbatim>\<open>../docs/guide.html#setup\<close>. It does
  not: \<^verbatim>\<open>isMarkdownLink\<close> tests the target with its anchor still attached, so this link
  is returned as it is.
\<close>

theorem link_vector_counterexample:
  "ProcessRelativeLinks id ''[Guide](./guide.md#setup)'' ''docs/intro.md'' ''go-i2p'' ''go-gh-page''
     \<noteq> ''[Guide](../docs/guide.html#setup)''"
  by code_simp

text \<open>
  C2, amended: the same link without anchor is rewritten, and its path is resolved against
  the directory \<^verbatim>\<open>docs\<close> of the document before it is mapped below \<^verbatim>\<open>docs\<close>, so the
  new target is \<^verbatim>\<open>../docs/docs/guide.html\<close>.
\<close>

theorem ProcessRelativeLinks_guide:
  "ProcessRelativeLinks uni ''[Guide](./guide.md)'' ''docs/intro.md'' owner repo
     = ''[Guide](../docs/docs/guide.html)''"
  by code_simp

text \<open>
  C3, as the specification states it: resolving \<^verbatim>\<open>./x.md\<close> in the document
  \<^verbatim>\<open>a/b/readme.md\<close> gives \<^verbatim>\<open>a/x.md\<close>. The directory of that document is
  \<^verbatim>\<open>a/b\<close>, and the result is \<^verbatim>\<open>a/b/x.md\<close>.
\<close>

theorem resolve_vector_counterexample:
  "resolvedPath (Dir ''a/b/readme.md'') ''./x.md'' \<noteq> ''a/x.md''"
  by code_simp

text \<open>
  C3, amended: \<^verbatim>\<open>./x.md\<close> in the document \<^verbatim>\<open>a/b/readme.md\<close> resolves to
  \<^verbatim>\<open>a/b/x.md\<close>; \<^verbatim>\<open>/x.md\<close> resolves to \<^verbatim>\<open>x.md\<close> in any document; a link to
  \<^verbatim>\<open>http://e.com\<close> and a link to \<^verbatim>\<open>#anchor\<close> are returned unchanged in any document.
\<close>

theorem resolve_vectors:
  assumes "lbl \<noteq> []" "CHR '']'' \<notin> set lbl"
  shows "resolvedPath (Dir ''a/b/readme.md'') ''./x.md'' = ''a/b/x.md''
       \<and> resolvedPath (Dir doc) ''/x.md'' = ''x.md''
       \<and> linkFunc uni (Dir doc) (linkSyntax lbl ''http://e.com'') = linkSyntax lbl ''http://e.com''
       \<and> linkFunc uni (Dir doc) (linkSyntax lbl ''#anchor'') = linkSyntax lbl ''#anchor''"
proof -
  have 1: "resolvedPath (Dir ''a/b/readme.md'') ''./x.md'' = ''a/b/x.md''" by code_simp
  have 2: "resolvedPath (Dir doc) ''/x.md'' = ''x.md''" by (simp add: resolvedPath_def HasPrefix_def)
  have 3: "linkFunc uni (Dir doc) (linkSyntax lbl ''http://e.com'') = linkSyntax lbl ''http://e.com''"
    using linkFunc_unchanged[OF assms, of "''http://e.com''" uni] by (simp add: HasPrefix_def)
  have 4: "linkFunc uni (Dir doc) (linkSyntax lbl ''#anchor'') = linkSyntax lbl ''#anchor''"
    using linkFunc_unchanged[OF assms, of "''#anchor''" uni] by (simp add: HasPrefix_def)
  from 1 2 3 4 show ?thesis by simp
qed

theorem resolve_vectors_witness:
  "resolvedPath (Dir ''a/b/readme.md'') ''./x.md'' = ''a/b/x.md''
   \<and> resolvedPath (Dir ''docs/intro.md'') ''/x.md'' = ''x.md''
   \<and> linkFunc id (Dir ''docs/intro.md'') ''[site](http://e.com)'' = ''[site](http://e.com)''
   \<and> linkFunc id (Dir ''docs/intro.md'') ''[top](#anchor)'' = ''[top](#anchor)''"
  using resolve_vectors[of "''site''" "''docs/intro.md''" id] resolve_vectors[of "''top''" "''docs/intro.md''" id]
  by (simp add: linkSyntax_def)









section \<open>Properties of the sorting loops\<close>

lemma length_outerLoop: "length (outerLoop f i s) = length s"
  by (induction f i s rule: outerLoop.induct) (subst outerLoop.simps, simp add: length_innerLoop)

lemma mset_innerLoop: "i < length s \<Longrightarrow> mset (innerLoop f i j s) = mset s"
proof (induction f i j s rule: innerLoop.induct)
  case (1 f i j s)
  show ?case
  proof (cases "j < length s")
    case True
    let ?s' = "if f (s ! i) (s ! j) then s[i := s ! j, j := s ! i] else s"
    have "mset ?s' = mset s" using True "1.prems" by (simp add: mset_swap)
    moreover have "mset (innerLoop f i (Suc j) ?s') = mset ?s'"
      using "1.IH"[OF True] "1.prems" by simp
    ultimately show ?thesis using True by (subst innerLoop.simps) simp
  next
    case False then show ?thesis by (subst innerLoop.simps) simp
  qed
qed

lemma mset_outerLoop: "mset (outerLoop f i s) = mset s"
proof (induction f i s rule: outerLoop.induct)
  case (1 f i s)
  show ?case
  proof (cases "i < length s")
    case True
    then show ?thesis using "1.IH"[OF True] by (subst outerLoop.simps) (simp add: mset_innerLoop)
  next
    case False then show ?thesis by (subst outerLoop.simps) simp
  qed
qed

text \<open>ordered up to i: every element before position i is at most every element after it\<close>

lemma settled_swap:
  fixes key :: "'a \<Rightarrow> 'k::linorder"
  assumes "settled key i s" "i < length s" "i < j" "j < length s"
  shows "settled key i (s[i := s ! j, j := s ! i])"
  unfolding settled_def
proof (intro allI impI)
  fix a b assume ab: "a < i \<and> a < b \<and> b < length (s[i := s ! j, j := s ! i])"
  then have b: "b < length s" by simp
  have a: "s[i := s ! j, j := s ! i] ! a = s ! a" using ab assms by simp
  have "s[i := s ! j, j := s ! i] ! b = s ! b \<or> s[i := s ! j, j := s ! i] ! b = s ! i
        \<or> s[i := s ! j, j := s ! i] ! b = s ! j"
    using b assms by (cases "b = i"; cases "b = j") simp_all
  moreover have "key (s ! a) \<le> key (s ! b)" "key (s ! a) \<le> key (s ! i)" "key (s ! a) \<le> key (s ! j)"
    using assms ab b unfolding settled_def by auto
  ultimately show "key (s[i := s ! j, j := s ! i] ! a) \<le> key (s[i := s ! j, j := s ! i] ! b)"
    unfolding a by auto
qed

lemma innerLoop_inv:
  fixes key :: "'a \<Rightarrow> 'k::linorder"
  shows "i < j \<Longrightarrow> i < length s \<Longrightarrow> settled key i s \<Longrightarrow>
         (\<forall>k. i < k \<and> k < j \<and> k < length s \<longrightarrow> key (s ! i) \<le> key (s ! k)) \<Longrightarrow>
         settled key (Suc i) (innerLoop (\<lambda>x y. key y < key x) i j s)"
proof (induction "length s - j" arbitrary: j s)
  case 0
  then have j: "\<not> j < length s" by simp
  have "settled key (Suc i) s"
    unfolding settled_def
  proof (intro allI impI)
    fix a b assume ab: "a < Suc i \<and> a < b \<and> b < length s"
    show "key (s ! a) \<le> key (s ! b)"
    proof (cases "a < i")
      case True then show ?thesis using "0.prems"(3) ab by (simp add: settled_def)
    next
      case False
      then have "a = i" using ab by simp
      then show ?thesis using "0.prems"(4) ab j by simp
    qed
  qed
  then show ?case using j by (subst innerLoop.simps) simp
next
  case (Suc n)
  then have j: "j < length s" by simp
  let ?s' = "if key (s ! j) < key (s ! i) then s[i := s ! j, j := s ! i] else s"
  have len: "length ?s' = length s" by simp
  have n: "n = length ?s' - Suc j" using Suc.hyps(2) by simp
  have st: "settled key i ?s'"
    using settled_swap[OF Suc.prems(3,2,1) j] Suc.prems(3) by simp
  have mn: "\<forall>k. i < k \<and> k < Suc j \<and> k < length ?s' \<longrightarrow> key (?s' ! i) \<le> key (?s' ! k)"
  proof (intro allI impI)
    fix k assume k: "i < k \<and> k < Suc j \<and> k < length ?s'"
    show "key (?s' ! i) \<le> key (?s' ! k)"
    proof (cases "key (s ! j) < key (s ! i)")
      case True
      have i': "?s' ! i = s ! j" using True Suc.prems(1,2) j by simp
      show ?thesis
      proof (cases "k = j")
        case True
        then have "?s' ! k = s ! i" using \<open>key (s ! j) < key (s ! i)\<close> j by simp
        then show ?thesis using i' \<open>key (s ! j) < key (s ! i)\<close> by simp
      next
        case False
        then have kj: "k < j" using k by simp
        then have "?s' ! k = s ! k" using True k by simp
        moreover have "key (s ! i) \<le> key (s ! k)" using Suc.prems(4) k kj j by simp
        ultimately show ?thesis using i' True by simp
      qed
    next
      case False
      show ?thesis
      proof (cases "k = j")
        case True then show ?thesis using False by simp
      next
        case F: False
        then have "k < j" using k by simp
        then show ?thesis using False Suc.prems(4) k by simp
      qed
    qed
  qed
  have "settled key (Suc i) (innerLoop (\<lambda>x y. key y < key x) i (Suc j) ?s')"
    using Suc.hyps(1)[OF n _ _ st mn] Suc.prems(1,2) by simp
  then show ?case using j by (subst innerLoop.simps) simp
qed

lemma outerLoop_inv:
  fixes key :: "'a \<Rightarrow> 'k::linorder"
  shows "settled key i s \<Longrightarrow> settled key (length s) (outerLoop (\<lambda>x y. key y < key x) i s)"
proof (induction "length s - i" arbitrary: i s)
  case 0
  then have "\<not> i < length s" by simp
  moreover have "settled key (length s) s" using 0 by (auto simp: settled_def)
  ultimately show ?case by (subst outerLoop.simps) simp
next
  case (Suc n)
  then have i: "i < length s" by simp
  let ?s' = "innerLoop (\<lambda>x y. key y < key x) i (Suc i) s"
  have "\<forall>k. i < k \<and> k < Suc i \<and> k < length s \<longrightarrow> key (s ! i) \<le> key (s ! k)" by auto
  then have st: "settled key (Suc i) ?s'" using innerLoop_inv[of i "Suc i" s key] i Suc.prems by blast
  have n: "n = length ?s' - Suc i" using Suc.hyps(2) by (simp add: length_innerLoop)
  have "settled key (length ?s') (outerLoop (\<lambda>x y. key y < key x) (Suc i) ?s')"
    using Suc.hyps(1)[OF n st] .
  then show ?case using i by (subst outerLoop.simps) (simp add: length_innerLoop)
qed

lemma sorted_outerLoop:
  fixes key :: "'a \<Rightarrow> 'k::linorder"
  shows "sorted (map key (outerLoop (\<lambda>x y. key y < key x) 0 s))"
proof -
  let ?r = "outerLoop (\<lambda>x y. key y < key x) 0 s"
  have "settled key 0 s" by (simp add: settled_def)
  then have "settled key (length s) ?r" by (rule outerLoop_inv)
  then have "\<forall>a b. a < b \<and> b < length ?r \<longrightarrow> key (?r ! a) \<le> key (?r ! b)"
    by (auto simp: settled_def length_outerLoop)
  then show ?thesis by (simp add: sorted_iff_nth_mono_less)
qed

lemma sorted_SortDocPagesByTitle: "sorted (map Title (SortDocPagesByTitle pages))"
  unfolding SortDocPagesByTitle_def by (rule sorted_outerLoop)

lemma sorted_sortContributorsByCommits:
  "sorted_wrt (\<lambda>a b. Commits a \<ge> Commits b) (sortContributorsByCommits cs)"
proof -
  have "(\<lambda>a b. Commits a < Commits b) = (\<lambda>x y. - Commits y < - Commits (x::Contributor))"
    by (intro ext) simp
  then have "sorted (map (\<lambda>c. - Commits c) (sortContributorsByCommits cs))"
    unfolding sortContributorsByCommits_def using sorted_outerLoop[of "\<lambda>c. - Commits c" cs] by simp
  then show ?thesis by (simp add: sorted_map sorted_wrt_iff_nth_less)
qed

text \<open>
  C7, as the specification states it: the contributors are at most five, in descending
  order of commit count, and contributors with equal counts stand in the order in which they
  were first met. With the commits of Ann, Bob, Cy, Cy (in this order) and a map ranged over
  in that same order, the exchange of Ann and Cy puts Bob before Ann, who was met first.
\<close>

theorem contributor_ties_counterexample:
  "map (\<lambda>c. (Email c, Commits c)) (GetRepositoryData_Contributors
        [\<lparr>AuthorName = ''Ann'', AuthorEmail = ''a@x''\<rparr>, \<lparr>AuthorName = ''Bob'', AuthorEmail = ''b@x''\<rparr>,
         \<lparr>AuthorName = ''Cy'', AuthorEmail = ''c@x''\<rparr>, \<lparr>AuthorName = ''Cy'', AuthorEmail = ''c@x''\<rparr>]
        [''a@x'', ''b@x'', ''c@x''])
   = [(''c@x'', 2), (''b@x'', 1), (''a@x'', 1)]"
  by code_simp

text \<open>
  C7, amended: the contributors are at most five and in descending order of commit count,
  whatever the commits and whatever the order in which the map is ranged over.
\<close>

theorem contributors_top_five:
  "length (GetRepositoryData_Contributors commits rangeOrder) \<le> 5
   \<and> sorted_wrt (\<lambda>a b. Commits a \<ge> Commits b) (GetRepositoryData_Contributors commits rangeOrder)"
  using sorted_sortContributorsByCommits sorted_wrt_take
  by (auto simp: GetRepositoryData_Contributors_def Let_def)

section \<open>Properties of the generator\<close>

lemma docsPagesLoop_eq:
  "docsPagesLoop env fs acc = acc @ map (navEntry env) (filter (notReadme env) fs)"
  by (induction fs arbitrary: acc) (auto simp: notReadme_def navEntry_def Let_def)

lemma docsPagesLoop_filter:
  "docsPagesLoop env fs acc = docsPagesLoop env (filter (notReadme env) fs) acc"
  by (simp add: docsPagesLoop_eq)

lemma generateDocPages_filter:
  "generateDocPages env g fs a st n = generateDocPages env g (filter (notReadme env) fs) a st n"
  by (induction fs arbitrary: st n) (auto simp: notReadme_def split: sum.splits)

lemma generateDocPages_count:
  "generateDocPages env g fs a st n = Inr (st', n') \<Longrightarrow>
   n' = n + int (length (filter (notReadme env) fs))"
proof (induction fs arbitrary: st n)
  case Nil then show ?case by simp
next
  case (Cons f fs)
  obtain path content where f: "f = (path, content)" by (cases f)
  show ?case
  proof (cases "isReadmeFile (unicodeLower env) (Base path)")
    case True
    then show ?thesis using Cons f by (simp add: notReadme_def)
  next
    case False
    then obtain st1 where "generateDocPage env g path content a st = Inr st1"
      and "generateDocPages env g fs a st1 (n + 1) = Inr (st', n')"
      using Cons.prems f by (auto split: sum.splits)
    then show ?thesis using Cons.IH[of st1 "n + 1"] False f by (simp add: notReadme_def)
  qed
qed

lemma buildNavigation_eq:
  "buildNavigation env fs h =
     (nextAddr h,
      h\<lparr>arrays := (arrays h)(nextAddr h := SortDocPagesByTitle (docsPagesLoop env fs [])),
        nextAddr := Suc (nextAddr h)\<rparr>)"
  by (simp add: buildNavigation_def newSlice_def)

lemma mset_SortDocPagesByTitle: "mset (SortDocPagesByTitle pages) = mset pages"
  by (simp add: SortDocPagesByTitle_def mset_outerLoop)

lemma markActive_eq:
  "markActive out i s =
     take i s @ map (\<lambda>p. if Path p = out then p\<lparr>IsActive := True\<rparr> else p) (drop i s)"
proof (induction "length s - i" arbitrary: i s)
  case 0
  then show ?case by (subst markActive.simps) simp
next
  case (Suc n)
  let ?f = "\<lambda>p. if Path p = out then p\<lparr>IsActive := True\<rparr> else p"
  let ?s' = "if Path (s ! i) = out then s[i := (s ! i)\<lparr>IsActive := True\<rparr>] else s"
  have i: "i < length s" using Suc.hyps(2) by simp
  have n: "n = length ?s' - Suc i" using Suc.hyps(2) by simp
  have s': "?s' = s[i := ?f (s ! i)]" by simp
  have t: "take (Suc i) ?s' = take i s @ [?f (s ! i)]"
    unfolding s' using i by (simp add: take_Suc_conv_app_nth)
  have d: "drop (Suc i) ?s' = drop (Suc i) s" unfolding s' by simp
  have "markActive out i s = markActive out (Suc i) ?s'"
    using i by (subst markActive.simps) simp
  also have "\<dots> = take (Suc i) ?s' @ map ?f (drop (Suc i) ?s')"
    using Suc.hyps(1)[OF n] .
  also have "\<dots> = take i s @ ?f (s ! i) # map ?f (drop (Suc i) s)"
    unfolding t d by simp
  also have "\<dots> = take i s @ map ?f (drop i s)"
    using i by (simp add: Cons_nth_drop_Suc[symmetric])
  finally show ?case .
qed

lemma docPageData_heap:
  assumes "docsPages < nextAddr h"
  shows "snd (docPageData env g path content docsPages h) =
           h\<lparr>arrays := (arrays h)(nextAddr h :=
                 map (\<lambda>p. if Path p = GetOutputPath path ''docs'' then p\<lparr>IsActive := True\<rparr> else p)
                   (arrays h docsPages)),
             nextAddr := Suc (nextAddr h)\<rparr>"
  using assms
  by (simp add: docPageData_def Let_def newSlice_def copySlice_def markActive_eq)

lemma docPageData_data:
  "DocsPages (fst (docPageData env g path content docsPages h)) = nextAddr h"
  "CurrentPage (fst (docPageData env g path content docsPages h)) = GetOutputPath path ''docs''"
  by (simp_all add: docPageData_def Let_def newSlice_def split_def)

lemma generateDocPage_heap:
  assumes "generateDocPage env g path content a (fs, h) = Inr (fs', h')"
  shows "h' = snd (docPageData env g path content a h)"
  using assms
  by (auto simp: generateDocPage_def Let_def split_def split: sum.splits)

lemma generateDocPages_canonical:
  "generateDocPages env g fs a st n = Inr (st', n') \<Longrightarrow> a < nextAddr (snd st) \<Longrightarrow>
   arrays (snd st') a = arrays (snd st) a \<and> a < nextAddr (snd st')"
proof (induction fs arbitrary: st n)
  case Nil then show ?case by simp
next
  case (Cons f fs)
  obtain path content where f: "f = (path, content)" by (cases f)
  obtain fs0 h where st: "st = (fs0, h)" by (cases st)
  show ?case
  proof (cases "isReadmeFile (unicodeLower env) (Base path)")
    case True
    then show ?thesis using Cons f by simp
  next
    case False
    then obtain st1 where 1: "generateDocPage env g path content a st = Inr st1"
      and 2: "generateDocPages env g fs a st1 (n + 1) = Inr (st', n')"
      using Cons.prems f by (auto split: sum.splits)
    have h1: "snd st1 = snd (docPageData env g path content a h)"
      using generateDocPage_heap[of env g path content a fs0 h "fst st1" "snd st1"] 1 st by simp
    have a: "a < nextAddr h" using Cons.prems(2) st by simp
    have "arrays (snd st1) a = arrays h a \<and> a < nextAddr (snd st1)"
      unfolding h1 docPageData_heap[OF a] using a by simp
    then show ?thesis using Cons.IH[OF 2] st by simp
  qed
qed

lemma navigation_inactive:
  "list_all (\<lambda>p. \<not> IsActive p) (SortDocPagesByTitle (docsPagesLoop env fs []))"
proof -
  have "set (SortDocPagesByTitle (docsPagesLoop env fs [])) = set (docsPagesLoop env fs [])"
    using mset_SortDocPagesByTitle by (metis set_mset_mset)
  then show ?thesis by (auto simp: list_all_iff docsPagesLoop_eq navEntry_def)
qed

lemma navigation_count:
  "length (filter (\<lambda>p. Path p = out) (SortDocPagesByTitle (docsPagesLoop env fs [])))
     = length (filter (\<lambda>(p, c). notReadme env (p, c) \<and> GetOutputPath p ''docs'' = out) fs)"
proof -
  let ?P = "\<lambda>p. Path p = out"
  have "length (filter ?P (SortDocPagesByTitle (docsPagesLoop env fs [])))
          = size (filter_mset ?P (mset (SortDocPagesByTitle (docsPagesLoop env fs []))))"
    by (metis mset_filter size_mset)
  also have "\<dots> = size (filter_mset ?P (mset (docsPagesLoop env fs [])))"
    by (simp add: mset_SortDocPagesByTitle)
  also have "\<dots> = length (filter ?P (docsPagesLoop env fs []))"
    by (metis mset_filter size_mset)
  also have "\<dots> = length (filter (\<lambda>(p, c). notReadme env (p, c) \<and> GetOutputPath p ''docs'' = out) fs)"
    by (induction fs) (auto simp: docsPagesLoop_eq navEntry_def)
  finally show ?thesis .
qed

lemma filter_active_marked:
  "list_all (\<lambda>p. \<not> IsActive p) xs \<Longrightarrow>
   filter IsActive (map (\<lambda>p. if Path p = out then p\<lparr>IsActive := True\<rparr> else p) xs)
     = map (\<lambda>p. if Path p = out then p\<lparr>IsActive := True\<rparr> else p)
         (filter (\<lambda>p. Path p = out) xs)"
  by (induction xs) auto

text \<open>
  C6, amended. For a documentation page that \<^verbatim>\<open>GenerateSite\<close> renders (a document of the
  snapshot that is not skipped), with the navigation array as it was built:
  \<^item> preparing the page's data does not change the navigation array, and the page's own
    list is another array;
  \<^item> in the page's list an entry is active exactly when its path is the page's output path;
  \<^item> the number of active entries is the number of documents (not skipped) with that output
    path: at least one, and exactly one when no other document has the same output path;
  \<^item> the overview page gets the navigation array itself, in which no entry is active.
\<close>

theorem page_navigation:
  assumes nav: "buildNavigation env markdownFiles h0 = (docsPages, h1)"
    and h: "arrays h docsPages = arrays h1 docsPages" "docsPages < nextAddr h"
    and doc: "(path, content) \<in> set markdownFiles" "notReadme env (path, content)"
    and page: "docPageData env g path content docsPages h = (data, h')"
  shows "arrays h' docsPages = arrays h docsPages
       \<and> DocsPages data \<noteq> docsPages
       \<and> CurrentPage data = GetOutputPath path ''docs''
       \<and> list_all (\<lambda>p. IsActive p = (Path p = CurrentPage data)) (arrays h' (DocsPages data))
       \<and> length (filter IsActive (arrays h' (DocsPages data)))
           = length (filter (\<lambda>(p, c). notReadme env (p, c)
                              \<and> GetOutputPath p ''docs'' = GetOutputPath path ''docs'') markdownFiles)
       \<and> 1 \<le> length (filter IsActive (arrays h' (DocsPages data)))
       \<and> DocsPages (mainPageData env g docsPages) = docsPages
       \<and> filter IsActive (arrays h1 docsPages) = []"
proof -
  let ?out = "GetOutputPath path ''docs''"
  let ?f = "\<lambda>p. if Path p = ?out then p\<lparr>IsActive := True\<rparr> else p"
  let ?nav = "SortDocPagesByTitle (docsPagesLoop env markdownFiles [])"
  have canon: "arrays h docsPages = ?nav"
    using nav h(1) by (auto simp: buildNavigation_eq)
  have h': "h' = h\<lparr>arrays := (arrays h)(nextAddr h := map ?f (arrays h docsPages)),
                   nextAddr := Suc (nextAddr h)\<rparr>"
    using docPageData_heap[OF h(2), of env g path content] page by simp
  have d: "DocsPages data = nextAddr h" "CurrentPage data = ?out"
    using docPageData_data[of env g path content docsPages h] page by simp_all
  have cur: "arrays h' (DocsPages data) = map ?f ?nav" using h' d canon by simp
  have 1: "arrays h' docsPages = arrays h docsPages" using h' h(2) by simp
  have 2: "DocsPages data \<noteq> docsPages" using d h(2) by simp
  have ina: "list_all (\<lambda>p. \<not> IsActive p) ?nav" by (rule navigation_inactive)
  have 4: "list_all (\<lambda>p. IsActive p = (Path p = CurrentPage data)) (arrays h' (DocsPages data))"
    unfolding cur d(2) using ina by (auto simp: list_all_iff)
  have "filter IsActive (map ?f ?nav) = map ?f (filter (\<lambda>p. Path p = ?out) ?nav)"
    using filter_active_marked[OF ina] .
  then have 5: "length (filter IsActive (arrays h' (DocsPages data)))
           = length (filter (\<lambda>(p, c). notReadme env (p, c)
                              \<and> GetOutputPath p ''docs'' = ?out) markdownFiles)"
    unfolding cur by (simp add: navigation_count)
  have "(path, content) \<in> set (filter (\<lambda>(p, c). notReadme env (p, c)
                              \<and> GetOutputPath p ''docs'' = ?out) markdownFiles)"
    using doc by simp
  then have "filter (\<lambda>(p, c). notReadme env (p, c)
                              \<and> GetOutputPath p ''docs'' = ?out) markdownFiles \<noteq> []"
    by (metis empty_iff empty_set)
  then have 6: "1 \<le> length (filter IsActive (arrays h' (DocsPages data)))"
    unfolding 5 by (simp add: Suc_le_eq)
  have 7: "DocsPages (mainPageData env g docsPages) = docsPages" by (simp add: mainPageData_def)
  have "arrays h1 docsPages = ?nav" using nav by (auto simp: buildNavigation_eq)
  then have 8: "filter IsActive (arrays h1 docsPages) = []"
    using ina by (auto simp: list_all_iff filter_empty_conv)
  from 1 2 d(2) 4 5 6 7 8 show ?thesis by simp
qed

theorem page_navigation_witness:
  "(case buildNavigation env0 [(''docs/a.md'', ''A''), (''docs/b.md'', ''B'')] heap0 of
      (docsPages, h) \<Rightarrow>
        (case docPageData env0 g0 ''docs/a.md'' ''A'' docsPages h of
           (data, h') \<Rightarrow>
             arrays h' docsPages = arrays h docsPages
             \<and> length (filter IsActive (arrays h' (DocsPages data))) = 1
             \<and> filter IsActive (arrays h docsPages) = []))"
proof -
  let ?fs = "[(''docs/a.md'', ''A''), (''docs/b.md'', ''B'')]"
  obtain a h where nav: "buildNavigation env0 ?fs heap0 = (a, h)" by fastforce
  obtain data h' where page: "docPageData env0 g0 ''docs/a.md'' ''A'' a h = (data, h')" by fastforce
  have a: "a < nextAddr h" using nav by (auto simp: buildNavigation_eq)
  have d: "(''docs/a.md'', ''A'') \<in> set ?fs" by simp
  have r: "notReadme env0 (''docs/a.md'', ''A'')" by code_simp
  have c: "length (filter (\<lambda>(p, c). notReadme env0 (p, c)
             \<and> GetOutputPath p ''docs'' = GetOutputPath ''docs/a.md'' ''docs'') ?fs) = 1"
    by code_simp
  show ?thesis
    using page_navigation[OF nav refl a d r page] c by (simp add: nav page)
qed

text \<open>
  The canonical array stays as it is through the whole loop that generates the pages.
\<close>

lemma generateDocPages_keeps_navigation:
  "generateDocPages env g fs a st n = Inr (st', n') \<Longrightarrow> a < nextAddr (snd st) \<Longrightarrow>
   arrays (snd st') a = arrays (snd st) a"
  using generateDocPages_canonical by blast

text \<open>
  C6, as the specification states it: the page's copy of the navigation has exactly one
  active entry. The documents \<^verbatim>\<open>a.md\<close> and \<^verbatim>\<open>a.markdown\<close> both go to
  \<^verbatim>\<open>docs/a.html\<close>, and the page of \<^verbatim>\<open>a.md\<close> has two active entries.
\<close>

theorem active_entries_counterexample:
  "(case buildNavigation env0 [(''a.md'', ''x''), (''a.markdown'', ''y'')] heap0 of
      (docsPages, h) \<Rightarrow>
        (case docPageData env0 g0 ''a.md'' ''x'' docsPages h of
           (data, h') \<Rightarrow> length (filter IsActive (arrays h' (DocsPages data))) = 2))"
  by code_simp

text \<open>
  C5. The navigation array that \<^verbatim>\<open>GenerateSite\<close> builds is sorted by title in byte
  order, whatever the order in which the documents are ranged over: the titles are
  ascending, and of two adjacent entries the first title is at most the second.
\<close>

theorem navigation_sorted:
  "(case buildNavigation env markdownFiles h of
      (docsPages, h') \<Rightarrow>
        sorted (map Title (arrays h' docsPages))
        \<and> (\<forall>i. Suc i < length (arrays h' docsPages)
               \<longrightarrow> Title (arrays h' docsPages ! i) \<le> Title (arrays h' docsPages ! Suc i)))"
proof -
  let ?nav = "SortDocPagesByTitle (docsPagesLoop env markdownFiles [])"
  have s: "sorted (map Title ?nav)" by (rule sorted_SortDocPagesByTitle)
  have "Title (?nav ! i) \<le> Title (?nav ! Suc i)" if "Suc i < length ?nav" for i
    using s that sorted_nth_mono[of "map Title ?nav" i "Suc i"] by simp
  then show ?thesis using s by (simp add: buildNavigation_eq)
qed

theorem navigation_sorted_witness:
  "(case buildNavigation env0 [(''docs/zeta.md'', ''# beta''), (''docs/b.md'', ''# Alpha''), (''a.md'', ''no heading'')] heap0 of
      (docsPages, h') \<Rightarrow>
        map Title (arrays h' docsPages) = [''A'', ''Alpha'', ''beta'']
        \<and> Title (arrays h' docsPages ! 0) \<le> Title (arrays h' docsPages ! 1)
        \<and> Title (arrays h' docsPages ! 1) \<le> Title (arrays h' docsPages ! 2))"
proof -
  let ?fs = "[(''docs/zeta.md'', ''# beta''), (''docs/b.md'', ''# Alpha''), (''a.md'', ''no heading'')]"
  let ?nav = "SortDocPagesByTitle (docsPagesLoop env0 ?fs [])"
  have n: "map Title ?nav = [''A'', ''Alpha'', ''beta'']" by code_simp
  then have l: "length ?nav = 3" by (metis length_map length_Cons list.size(3) numeral_3_eq_3)
  have "\<forall>i. Suc i < length ?nav \<longrightarrow> Title (?nav ! i) \<le> Title (?nav ! Suc i)"
    using navigation_sorted[of env0 ?fs heap0] by (simp add: buildNavigation_eq)
  then have "Title (?nav ! 0) \<le> Title (?nav ! 1) \<and> Title (?nav ! 1) \<le> Title (?nav ! 2)"
    using l by (metis One_nat_def Suc_1 lessI numeral_3_eq_3 Suc_lessD)
  then show ?thesis using n by (simp add: buildNavigation_eq)
qed

text \<open>
  C10. A document whose file name starts with \<^verbatim>\<open>readme.\<close> in any letter case is
  skipped, whether or not it is the overview document: \<^verbatim>\<open>GenerateSite\<close> gives the same
  result and the same output as on the snapshot without these documents, \<^verbatim>\<open>DocsCount\<close>
  counts the other documents only, and the navigation holds the entries of the other
  documents only.
\<close>

theorem readme_documents_skipped:
  "GenerateSite env g imageFiles markdownFiles1 markdownFiles2 st
     = GenerateSite env g imageFiles
         (filter (notReadme env) markdownFiles1) (filter (notReadme env) markdownFiles2) st
   \<and> (case GenerateSite env g imageFiles markdownFiles1 markdownFiles2 st of
        Inl err \<Rightarrow> True
      | Inr (res, st') \<Rightarrow> DocsCount res = int (length (filter (notReadme env) markdownFiles2)))
   \<and> (case buildNavigation env markdownFiles1 h of
        (docsPages, h') \<Rightarrow>
          mset (arrays h' docsPages)
            = mset (map (navEntry env) (filter (notReadme env) markdownFiles1)))"
proof -
  have 1: "GenerateSite env g imageFiles markdownFiles1 markdownFiles2 st
     = GenerateSite env g imageFiles
         (filter (notReadme env) markdownFiles1) (filter (notReadme env) markdownFiles2) st"
  proof -
    have n: "buildNavigation env (filter (notReadme env) markdownFiles1) = buildNavigation env markdownFiles1"
      by (intro ext) (simp add: buildNavigation_eq docsPagesLoop_eq)
    have p: "generateDocPages env g (filter (notReadme env) markdownFiles2) = generateDocPages env g markdownFiles2"
      by (intro ext) (simp add: generateDocPages_filter[symmetric])
    show ?thesis unfolding GenerateSite_def n p ..
  qed
  have 2: "(case GenerateSite env g imageFiles markdownFiles1 markdownFiles2 st of
        Inl err \<Rightarrow> True
      | Inr (res, st') \<Rightarrow> DocsCount res = int (length (filter (notReadme env) markdownFiles2)))"
    unfolding GenerateSite_def Let_def
    by (auto split: sum.splits option.splits prod.splits dest!: generateDocPages_count)
  have 3: "(case buildNavigation env markdownFiles1 h of
        (docsPages, h') \<Rightarrow>
          mset (arrays h' docsPages)
            = mset (map (navEntry env) (filter (notReadme env) markdownFiles1)))"
    by (simp add: buildNavigation_eq mset_SortDocPagesByTitle docsPagesLoop_eq)
  from 1 2 3 show ?thesis by simp
qed

theorem readme_documents_skipped_witness:
  "(case GenerateSite env0 g0 [(''img/a.png'', ''/repo/img/a.png'')] docs0 docs0 (fs0, heap0) of
      Inl err \<Rightarrow> False
    | Inr (res, fs, h) \<Rightarrow>
        DocsCount res = 1
        \<and> fileContent fs ''out/docs/docs/README.html'' = None
        \<and> fileContent fs ''out/docs/docs/a.html'' = Some ''A'')"
proof -
  have s: "(case GenerateSite env0 g0 [(''img/a.png'', ''/repo/img/a.png'')] docs0 docs0 (fs0, heap0) of
      Inl err \<Rightarrow> False
    | Inr (res, fs, h) \<Rightarrow>
        fileContent fs ''out/docs/docs/README.html'' = None
        \<and> fileContent fs ''out/docs/docs/a.html'' = Some ''A'')"
    by code_simp
  have c: "int (length (filter (notReadme env0) docs0)) = 1" by code_simp
  show ?thesis
    using readme_documents_skipped[of env0 g0 "[(''img/a.png'', ''/repo/img/a.png'')]" docs0 docs0
        "(fs0, heap0)", THEN conjunct2, THEN conjunct1] s c
    by (auto split: sum.splits prod.splits)
qed

end
